(* ===== verification/Prelude.thy ===== *)
theory Prelude
  imports Main "HOL-Library.Word" "HOL-Library.AList" "HOL-Library.Char_ord"
    "HOL-Library.List_Lexorder" "HOL-Library.Sublist"
begin

text \<open>
  Shared vocabulary of the development: bytes and Go strings, Go maps, the errors the program
  returns, decimal numbers as \<^verbatim>\<open>strconv\<close> prints and parses them, little-endian words, and the
  generic lemmas on them that every component uses.

  A Go \<^verbatim>\<open>string\<close> is a byte sequence, and so is Isabelle's \<^typ>\<open>string\<close>, whose characters are the 256
  bytes. A Go map is an association list with distinct keys: the order of the list is one
  iteration order that \<^verbatim>\<open>range\<close> may take, so a statement about all such lists is a statement
  about every iteration order.
\<close>

named_theorems gomap_simps \<open>lookups in updated Go maps\<close>

section \<open>Errors and results\<close>

datatype goerror =
    ErrDatabaseClosed                      \<comment> \<open>database is closed\<close>
  | ErrShuttingDown                        \<comment> \<open>database is shutting down\<close>
  | ErrTimeout                             \<comment> \<open>operation timeout, drain timeout\<close>
  | ErrTableExists string
  | ErrTableMissing string
  | ErrKeyMissing string
  | ErrUnknownOp
  | ErrBatchTooLarge
  | ErrIndexesDisabled
  | ErrNoIndex string string
  | ErrTxDisabled
  | ErrTxFinalized
  | ErrTxConflict "64 word" "64 word"
  | ErrWalClosed
  | ErrWalFull
  | ErrWalWriter
  | ErrEntryTooLarge nat
  | ErrChecksum
  | ErrEOF                                 \<comment> \<open>io.EOF\<close>
  | ErrUnexpectedEOF                       \<comment> \<open>io.ErrUnexpectedEOF\<close>
  | ErrSerialize
  | ErrDeserialize
  | ErrProto
  | ErrRand
  | ErrDecrypt
  | ErrJson
  | ErrIO
  | ErrUnauthorized
  | ErrKeyMismatch
  | ErrVerify
  | ErrConfig string
  | ErrLoadRetries
  | ErrNoBackups
  | ErrBadDst
  | ErrNilSource
  | ErrIncompatible
  | ErrPanic                               \<comment> \<open>a run-time panic of the Go program\<close>

type_synonym 'a res = "goerror + 'a"

section \<open>Bytes and strings\<close>

type_synonym byte = "8 word"
type_synonym bytes = "8 word list"

definition bytes_of :: "string \<Rightarrow> bytes" where
  "bytes_of s = map (\<lambda>c. of_nat (of_char c)) s"

definition string_of :: "bytes \<Rightarrow> string" where
  "string_of b = map (\<lambda>w. char_of (unat w)) b"

lemma unat_of_char [simp]: "unat (of_nat (of_char c) :: byte) = of_char c"
proof -
  have "(of_char c :: nat) < 256"
    by simp
  then show ?thesis
    by (simp add: unat_of_nat)
qed

lemma unat_byte_mod [simp]: "unat (w :: byte) mod 256 = unat w"
proof -
  have "unat w < 2 ^ LENGTH(8)"
    by (rule unsigned_less)
  then show ?thesis
    by simp
qed

lemma string_of_bytes_of [simp]: "string_of (bytes_of s) = s"
  by (simp add: string_of_def bytes_of_def comp_def)

lemma bytes_of_string_of [simp]: "bytes_of (string_of b) = b"
  by (simp add: string_of_def bytes_of_def comp_def)

lemma length_bytes_of [simp]: "length (bytes_of s) = length s"
  by (simp add: bytes_of_def)

lemma string_of_append [simp]: "string_of (a @ b) = string_of a @ string_of b"
  by (simp add: string_of_def)

lemma bytes_of_append [simp]: "bytes_of (s @ t) = bytes_of s @ bytes_of t"
  by (simp add: bytes_of_def)

lemma length_string_of [simp]: "length (string_of b) = length b"
  by (simp add: string_of_def)

lemma bytes_of_inject [simp]: "bytes_of s = bytes_of t \<longleftrightarrow> s = t"
  by (metis string_of_bytes_of)


section \<open>Go maps\<close>

type_synonym ('k, 'v) gomap = "('k \<times> 'v) list"

definition gm_wf :: "('k, 'v) gomap \<Rightarrow> bool" where
  "gm_wf m \<longleftrightarrow> distinct (map fst m)"

abbreviation gm_get :: "('k, 'v) gomap \<Rightarrow> 'k \<Rightarrow> 'v option" where
  "gm_get m k \<equiv> map_of m k"

abbreviation gm_put :: "'k \<Rightarrow> 'v \<Rightarrow> ('k, 'v) gomap \<Rightarrow> ('k, 'v) gomap" where
  "gm_put k v m \<equiv> AList.update k v m"

abbreviation gm_del :: "'k \<Rightarrow> ('k, 'v) gomap \<Rightarrow> ('k, 'v) gomap" where
  "gm_del k m \<equiv> AList.delete k m"

lemma gm_get_put [gomap_simps, simp]: "gm_get (gm_put k v m) k' = (if k' = k then Some v else gm_get m k')"
  by (simp add: update_conv)

lemma gm_get_del [gomap_simps, simp]: "gm_get (gm_del k m) k' = (if k' = k then None else gm_get m k')"
  by (simp add: delete_conv)

lemma gm_wf_Nil [simp]: "gm_wf []"
  by (simp add: gm_wf_def)

lemma gm_wf_put [simp, intro]: "gm_wf m \<Longrightarrow> gm_wf (gm_put k v m)"
  by (simp add: gm_wf_def distinct_update)

lemma gm_wf_del [simp, intro]: "gm_wf m \<Longrightarrow> gm_wf (gm_del k m)"
  by (simp add: gm_wf_def distinct_delete)

lemma gm_wf_map [simp]: "gm_wf (map (\<lambda>(k, v). (k, f k v)) m) = gm_wf m"
proof -
  have "map fst (map (\<lambda>(k, v). (k, f k v)) m) = map fst m"
    by (induction m) auto
  then show ?thesis
    by (simp only: gm_wf_def)
qed

lemma gm_get_map [gomap_simps, simp]:
  "gm_get (map (\<lambda>(k, v). (k, f v)) m) k = map_option f (gm_get m k)"
  by (induction m) auto

lemma gm_get_in_set: "gm_wf m \<Longrightarrow> (k, v) \<in> set m \<longleftrightarrow> gm_get m k = Some v"
  by (simp add: gm_wf_def)

text \<open>A fold of puts, which is what a Go loop over a map that stores into another one does.\<close>

definition gm_puts :: "('k \<times> 'v) list \<Rightarrow> ('k, 'v) gomap \<Rightarrow> ('k, 'v) gomap" where
  "gm_puts kvs m = fold (\<lambda>(k, v). gm_put k v) kvs m"

lemma gm_puts_simps [simp]:
  "gm_puts [] m = m"
  "gm_puts ((k, v) # kvs) m = gm_puts kvs (gm_put k v m)"
  by (simp_all add: gm_puts_def)

lemma gm_wf_puts [simp, intro]: "gm_wf m \<Longrightarrow> gm_wf (gm_puts kvs m)"
  by (induction kvs arbitrary: m) auto

lemma gm_get_puts: "gm_wf kvs \<Longrightarrow>
    gm_get (gm_puts kvs m) k = (case gm_get kvs k of Some v \<Rightarrow> Some v | None \<Rightarrow> gm_get m k)"
proof (induction kvs arbitrary: m)
  case Nil
  then show ?case by simp
next
  case (Cons p kvs)
  obtain k1 v1 where p: "p = (k1, v1)"
    by (cases p)
  from Cons.prems p have wf: "gm_wf kvs" and "k1 \<notin> fst ` set kvs"
    by (auto simp: gm_wf_def)
  then have "gm_get kvs k1 = None"
    by (simp add: map_of_eq_None_iff)
  then show ?case
    using Cons.IH [OF wf, of "gm_put k1 v1 m"] p
    by (cases "k = k1") (auto split: option.split)
qed

section \<open>Removing the first occurrence\<close>

text \<open>
  The loop \<^verbatim>\<open>for i, k := range keys { if k == key { append(keys[:i], keys[i+1:]...); break } }\<close>
  is the library's \<^const>\<open>remove1\<close>.
\<close>

lemma set_remove1_distinct: "distinct xs \<Longrightarrow> set (remove1 x xs) = set xs - {x}"
  by (rule set_remove1_eq)

section \<open>Decimal numbers\<close>

definition digit_char :: "nat \<Rightarrow> char" where
  "digit_char d = char_of (48 + d)"

definition char_digit :: "char \<Rightarrow> nat option" where
  "char_digit c = (let n = (of_char c :: nat) in if 48 \<le> n \<and> n \<le> 57 then Some (n - 48) else None)"

lemma char_digit_digit_char [simp]: "d < 10 \<Longrightarrow> char_digit (digit_char d) = Some d"
  by (simp add: char_digit_def digit_char_def Let_def)

fun dec_nat :: "nat \<Rightarrow> string" where
  "dec_nat n = (if n < 10 then [digit_char n] else dec_nat (n div 10) @ [digit_char (n mod 10)])"

declare dec_nat.simps [simp del]

definition dec_int :: "int \<Rightarrow> string" where
  "dec_int i = (if i < 0 then CHR ''-'' # dec_nat (nat (- i)) else dec_nat (nat i))"

text \<open>The digits read from left to right, as \<^verbatim>\<open>strconv.ParseUint\<close> does with base 10.\<close>

fun read_digits :: "nat \<Rightarrow> string \<Rightarrow> nat option" where
  "read_digits acc [] = Some acc"
| "read_digits acc (c # cs) =
     (case char_digit c of None \<Rightarrow> None | Some d \<Rightarrow> read_digits (acc * 10 + d) cs)"

definition parse_nat :: "string \<Rightarrow> nat option" where
  "parse_nat s = (if s = [] then None else read_digits 0 s)"

lemma read_digits_append:
  "read_digits acc (xs @ ys) = Option.bind (read_digits acc xs) (\<lambda>a. read_digits a ys)"
  by (induction xs arbitrary: acc) (auto split: option.splits)

lemma dec_nat_nonempty [simp]: "dec_nat n \<noteq> []"
  by (subst dec_nat.simps) simp

lemma read_digits_dec_nat: "read_digits 0 (dec_nat n) = Some n"
proof (induction n rule: dec_nat.induct)
  case (1 n)
  show ?case
  proof (cases "n < 10")
    case True
    then show ?thesis
      by (subst dec_nat.simps) simp
  next
    case False
    with 1 have "read_digits 0 (dec_nat (n div 10)) = Some (n div 10)"
      by simp
    with False show ?thesis
      by (subst dec_nat.simps) (simp add: read_digits_append)
  qed
qed

lemma parse_dec_nat [simp]: "parse_nat (dec_nat n) = Some n"
  by (simp add: parse_nat_def read_digits_dec_nat)

text \<open>The first character of a printed number is a digit, so it is no sign.\<close>

lemma hd_dec_nat: "\<exists>d<10. hd (dec_nat n) = digit_char d"
proof (induction n rule: dec_nat.induct)
  case (1 n)
  show ?case
  proof (cases "n < 10")
    case True
    then show ?thesis
      by (subst dec_nat.simps) auto
  next
    case False
    with 1 show ?thesis
      by (subst dec_nat.simps) (simp add: hd_append)
  qed
qed

lemma digit_char_no_sign: "d < 10 \<Longrightarrow> digit_char d \<noteq> CHR ''-'' \<and> digit_char d \<noteq> CHR ''+''"
proof -
  assume "d < 10"
  then have "(of_char (digit_char d) :: nat) \<ge> 48"
    by (simp add: digit_char_def)
  then show ?thesis
    by auto
qed

lemma dec_nat_no_sign:
  obtains c cs where "dec_nat n = c # cs" "c \<noteq> CHR ''-''" "c \<noteq> CHR ''+''"
proof -
  obtain c cs where "dec_nat n = c # cs"
    by (cases "dec_nat n") auto
  then show ?thesis
    using that hd_dec_nat [of n] digit_char_no_sign by (metis list.sel(1))
qed

section \<open>Little-endian 32-bit words\<close>

definition put_u32 :: "32 word \<Rightarrow> bytes" where
  "put_u32 w = [ucast w, ucast (drop_bit 8 w), ucast (drop_bit 16 w), ucast (drop_bit 24 w)]"

fun get_u32 :: "bytes \<Rightarrow> 32 word" where
  "get_u32 [a, b, c, d] =
     or (ucast a) (or (push_bit 8 (ucast b)) (or (push_bit 16 (ucast c)) (push_bit 24 (ucast d))))"
| "get_u32 _ = 0"

lemma length_put_u32 [simp]: "length (put_u32 w) = 4"
  by (simp add: put_u32_def)

lemma get_put_u32 [simp]: "get_u32 (put_u32 w) = w"
proof (rule bit_word_eqI)
  fix n :: nat
  assume n: "n < LENGTH(32)"
  then consider "n < 8" | "8 \<le> n" "n < 16" | "16 \<le> n" "n < 24" | "24 \<le> n" "n < 32"
    by (simp, linarith)
  then show "bit (get_u32 (put_u32 w)) n = bit w n"
    by cases (auto simp: put_u32_def bit_simps)
qed

lemma distinct_set_singleton: "distinct xs \<Longrightarrow> set xs = {x} \<Longrightarrow> xs = [x]"
  by (cases xs; cases "tl xs") auto

end
