(* ===== verification/Interfaces.thy ===== *)
theory Interfaces
  imports Prelude
begin

text \<open>
  The interface between the database and its write-ahead log. \<^verbatim>\<open>database.go\<close> only calls
  \<^verbatim>\<open>wal.Append\<close> on its hot path; what it relies on is that a call that returns no error has taken
  over exactly that entry, behind the ones accepted before, and that a call that returns an error
  has taken over nothing. The interpretation on the model of \<^verbatim>\<open>modules/wal\<close> is in \<open>WalInv\<close>.
\<close>

locale append_log =
  fixes append :: "'e \<Rightarrow> 'w \<Rightarrow> goerror option \<times> 'w"
    and log :: "'w \<Rightarrow> 'v list"
    and view :: "'e \<Rightarrow> 'v"
  assumes append_ok: "append e w = (None, w') \<Longrightarrow> log w' = log w @ [view e]"
    and append_err: "append e w = (Some err, w') \<Longrightarrow> log w' = log w"
begin

lemma append_cases:
  obtains (ok) w' where "append e w = (None, w')" "log w' = log w @ [view e]"
  | (err) err w' where "append e w = (Some err, w')" "log w' = log w"
proof (cases "append e w")
  case (Pair r w')
  then show ?thesis
    using append_ok [of e w w'] append_err [of e w _ w'] that by (cases r) auto
qed

lemma log_append: "log (snd (append e w)) = log w @ (if fst (append e w) = None then [view e] else [])"
  by (rule append_cases [of e w]) simp_all

lemma log_prefix: "\<exists>k. log (snd (append e w)) = log w @ k"
  by (simp add: log_append)

end

text \<open>
  The interface between the database and a secondary index. The database builds an index from the
  records of a table and then reports every change of a record with its old and its new value
  (\<open>nil\<close> for none); what it relies on is that the index goes on describing the table.
  The interpretation on \<^verbatim>\<open>modules/index\<close> is in \<open>Index\<close>.
\<close>

locale table_index =
  fixes build :: "('k \<times> 'v) list \<Rightarrow> 'i res"
    and change :: "'k \<Rightarrow> 'v \<Rightarrow> 'v \<Rightarrow> 'i \<Rightarrow> 'i res"
    and nil :: 'v
    and tracks :: "'i \<Rightarrow> ('k \<Rightarrow> 'v option) \<Rightarrow> bool"
  assumes build_tracks: "distinct (map fst kvs) \<Longrightarrow> build kvs = Inr i \<Longrightarrow> tracks i (map_of kvs)"
    and change_tracks: "tracks i m \<Longrightarrow> change k (case m k of None \<Rightarrow> nil | Some v \<Rightarrow> v) new i = Inr i' \<Longrightarrow>
      tracks i' (m(k \<mapsto> new))"
    and delete_tracks: "tracks i m \<Longrightarrow> change k (case m k of None \<Rightarrow> nil | Some v \<Rightarrow> v) nil i = Inr i' \<Longrightarrow>
      tracks i' (m(k := None))"
begin

fun changes :: "('k \<times> 'v) list \<Rightarrow> ('k \<Rightarrow> 'v option) \<Rightarrow> 'i \<Rightarrow> 'i res" where
  "changes [] m i = Inr i"
| "changes ((k, new) # kvs) m i =
     (case change k (case m k of None \<Rightarrow> nil | Some v \<Rightarrow> v) new i of
        Inl e \<Rightarrow> Inl e | Inr i' \<Rightarrow> changes kvs (m(k \<mapsto> new)) i')"

lemma changes_tracks:
  "tracks i m \<Longrightarrow> changes kvs m i = Inr i' \<Longrightarrow> tracks i' (fold (\<lambda>(k, v) m. m(k \<mapsto> v)) kvs m)"
  by (induction kvs m i rule: changes.induct) (auto split: sum.splits intro: change_tracks)

text \<open>Building first and changing later describes the same table as building late.\<close>

lemma build_then_changes:
  assumes "distinct (map fst kvs)" "build kvs = Inr i" "changes new (map_of kvs) i = Inr i'"
  shows "tracks i' (fold (\<lambda>(k, v) m. m(k \<mapsto> v)) new (map_of kvs))"
  using changes_tracks [OF build_tracks] assms by blast

end

text \<open>
  The interface between the database and its storage engine: a successful save is what the next load
  yields, up to the normal form \<open>norm\<close> of the file format, and a failed save leaves the stored
  snapshot as it was. The interpretation on \<^verbatim>\<open>modules/storage\<close> is in \<open>Storage\<close>.
\<close>

locale snapshot_store =
  fixes good :: "'n \<Rightarrow> 'd \<Rightarrow> bool"
    and save :: "'n \<Rightarrow> 'd \<Rightarrow> 's \<Rightarrow> goerror option \<times> 's"
    and load :: "'s \<Rightarrow> 'd res"
    and view :: "'d \<Rightarrow> 'v"
    and norm :: "'v \<Rightarrow> 'v"
  assumes save_ok: "good n d \<Longrightarrow> save n d s = (None, s') \<Longrightarrow> \<exists>d'. load s' = Inr d' \<and> view d' = norm (view d)"
    and save_err: "save n d s = (Some err, s') \<Longrightarrow> load s' = load s"
begin

fun saves :: "('n \<times> 'd) list \<Rightarrow> 's \<Rightarrow> 's" where
  "saves [] s = s"
| "saves ((n, d) # xs) s = saves xs (snd (save n d s))"

text \<open>After any series of attempts the store holds the last snapshot that was saved, or what it held
  before.\<close>

lemma saves_load:
  "\<forall>(n, d) \<in> set xs. good n d \<Longrightarrow>
   load (saves xs s) = load s \<or> (\<exists>(n, d) \<in> set xs. \<exists>d'. load (saves xs s) = Inr d' \<and> view d' = norm (view d))"
proof (induction xs arbitrary: s)
  case Nil
  then show ?case by simp
next
  case (Cons x xs)
  obtain n d where x: "x = (n, d)"
    by (cases x)
  obtain r s' where s': "save n d s = (r, s')"
    by fastforce
  have "load s' = load s \<or> (\<exists>d'. load s' = Inr d' \<and> view d' = norm (view d))"
  proof (cases r)
    case None
    with s' Cons.prems x save_ok [of n d s s'] show ?thesis
      by auto
  next
    case (Some err)
    with s' save_err show ?thesis
      by blast
  qed
  with Cons.IH [of s'] Cons.prems x s' show ?case
    by fastforce
qed

lemma save_load_either:
  assumes "good n d"
  shows "load (snd (save n d s)) = load s \<or> (\<exists>d'. load (snd (save n d s)) = Inr d' \<and> view d' = norm (view d))"
  using saves_load [of "[(n, d)]" s] assms by simp

end

end
