(* ===== verification/Keys.thy ===== *)
theory Keys
  imports Prelude
begin

text \<open>
  The encryption key and its byte helpers: \<^verbatim>\<open>modules/common/types.go\<close>,
  \<^verbatim>\<open>modules/common/bytes.go\<close> and \<^verbatim>\<open>keys.go\<close>. A \<^verbatim>\<open>Key\<close> is an array of 32 bytes, here a byte
  list whose length every operation keeps at 32 (\<open>key_wf\<close>). The hash \<^verbatim>\<open>pm256.Sum256\<close> is a
  third-party package: it is the argument \<open>sum256\<close> of the two generators.
\<close>

definition keyLen :: nat where
  "keyLen = 32"

type_synonym key = bytes

definition key_wf :: "key \<Rightarrow> bool" where
  "key_wf k \<longleftrightarrow> length k = keyLen"

definition zero_key :: key where
  "zero_key = replicate keyLen 0"

section \<open>bytes.go\<close>

fun IsEqual_loop :: "bytes \<Rightarrow> bytes \<Rightarrow> bool" where
  "IsEqual_loop (x # xs) (y # ys) = (if x \<noteq> y then False else IsEqual_loop xs ys)"
| "IsEqual_loop _ _ = True"

definition IsEqual :: "bytes \<Rightarrow> bytes \<Rightarrow> bool" where
  "IsEqual a b = (if length a \<noteq> length b then False else IsEqual_loop a b)"

definition has0xPrefix :: "string \<Rightarrow> bool" where
  "has0xPrefix s \<longleftrightarrow> 2 \<le> length s \<and> s ! 0 = CHR ''0'' \<and> s ! 1 = CHR ''x''"

definition hex_digit :: "byte \<Rightarrow> byte" where
  "hex_digit n = (if n < 10 then 48 + n else 87 + n)"

fun encode :: "bytes \<Rightarrow> bytes" where
  "encode [] = []"
| "encode (b # bs) = hex_digit (drop_bit 4 b) # hex_digit (and b 15) # encode bs"

definition from_hex_char :: "char \<Rightarrow> byte option" where
  "from_hex_char c =
     (let n = of_char c :: nat in
      if 48 \<le> n \<and> n \<le> 57 then Some (of_nat (n - 48))
      else if 97 \<le> n \<and> n \<le> 102 then Some (of_nat (n - 87))
      else if 65 \<le> n \<and> n \<le> 70 then Some (of_nat (n - 55))
      else None)"

text \<open>The bytes \<^verbatim>\<open>hex.DecodeString\<close> returns next to its error: those before the first bad pair.\<close>

fun decode :: "string \<Rightarrow> bytes" where
  "decode (a # b # cs) =
     (case (from_hex_char a, from_hex_char b) of
        (Some x, Some y) \<Rightarrow> or (push_bit 4 x) y # decode cs
      | _ \<Rightarrow> [])"
| "decode _ = []"

section \<open>types.go\<close>

definition SetBytes :: "key \<Rightarrow> bytes \<Rightarrow> key" where
  "SetBytes a b =
     (let b = (if length a < length b then drop (length b - keyLen) b else b)
      in take (keyLen - length b) a @ b)"

definition BytesToKey :: "bytes \<Rightarrow> key" where
  "BytesToKey b = SetBytes zero_key b"

definition StringToKey :: "string \<Rightarrow> key" where
  "StringToKey s = BytesToKey (bytes_of (if has0xPrefix s then drop 2 s else s))"

definition HexToKey :: "string \<Rightarrow> key" where
  "HexToKey s = StringToKey (if has0xPrefix s then drop 2 s else s)"

definition key_hex :: "key \<Rightarrow> bytes" where
  "key_hex k = bytes_of ''0x'' @ encode k"

definition Key_String :: "key \<Rightarrow> string" where
  "Key_String k = string_of (key_hex k)"

definition Key_Hex :: "key \<Rightarrow> string" where
  "Key_Hex k = string_of (key_hex k)"

definition IsZero :: "key \<Rightarrow> bool" where
  "IsZero k \<longleftrightarrow> k = zero_key"

section \<open>keys.go\<close>

text \<open>
  \<open>rnd\<close> is what \<^verbatim>\<open>io.ReadFull(rand.Reader, b)\<close> yields: the 64 random bytes, or \<^const>\<open>None\<close> on its
  error.
\<close>

definition GenerateKeyFromBytes :: "(bytes \<Rightarrow> bytes) \<Rightarrow> bytes \<Rightarrow> key" where
  "GenerateKeyFromBytes sum256 b = BytesToKey (sum256 b)"

definition GenerateKey :: "(bytes \<Rightarrow> bytes) \<Rightarrow> bytes option \<Rightarrow> key" where
  "GenerateKey sum256 rnd =
     (case rnd of None \<Rightarrow> zero_key | Some b \<Rightarrow> BytesToKey (sum256 b))"

section \<open>Lemmas\<close>

lemma IsEqual_loop_eq: "length a = length b \<Longrightarrow> IsEqual_loop a b \<longleftrightarrow> a = b"
  by (induction a b rule: list_induct2) auto

text \<open>The constant-length comparison that guards Export, Import and ChangeKey decides equality.\<close>
lemma IsEqual_sound: "IsEqual a b \<longleftrightarrow> a = b"
  by (auto simp: IsEqual_def IsEqual_loop_eq)

lemma key_wf_zero [simp]: "key_wf zero_key"
  by (simp add: key_wf_def zero_key_def)

lemma key_wf_SetBytes [simp]: "key_wf a \<Longrightarrow> key_wf (SetBytes a b)"
  by (auto simp: key_wf_def SetBytes_def Let_def keyLen_def)

lemma key_wf_BytesToKey [simp]: "key_wf (BytesToKey b)"
  by (simp add: BytesToKey_def)

lemma BytesToKey_short: "length b \<le> keyLen \<Longrightarrow> BytesToKey b = replicate (keyLen - length b) 0 @ b"
  by (auto simp: BytesToKey_def SetBytes_def zero_key_def Let_def take_replicate keyLen_def)

lemma BytesToKey_long: "keyLen < length b \<Longrightarrow> BytesToKey b = drop (length b - keyLen) b"
  by (auto simp: BytesToKey_def SetBytes_def zero_key_def Let_def take_replicate keyLen_def)

lemma BytesToKey_id: "key_wf k \<Longrightarrow> BytesToKey k = k"
  by (simp add: BytesToKey_short key_wf_def)

text \<open>Every constructor of a key yields exactly 32 bytes: shorter input is padded with zero
  bytes on the left, longer input keeps its last 32 bytes.\<close>
theorem BytesToKey_correct:
  "length (BytesToKey b) = 32 \<and>
   BytesToKey b = replicate (32 - length b) 0 @ drop (length b - 32) b"
proof (cases "length b \<le> keyLen")
  case True
  then show ?thesis
    by (simp add: BytesToKey_short keyLen_def)
next
  case False
  then show ?thesis
    by (simp add: BytesToKey_long keyLen_def)
qed

lemma unat_hex_digit:
  assumes "n < 16"
  shows "unat (hex_digit n) = (if unat n < 10 then 48 + unat n else 87 + unat n)"
proof -
  have "unat n < 16"
    using assms by (simp add: word_less_nat_alt)
  moreover have "n < 10 \<longleftrightarrow> unat n < 10"
    by (simp add: word_less_nat_alt)
  ultimately show ?thesis
    by (auto simp: hex_digit_def unat_word_ariths)
qed

lemma from_hex_digit: "n < 16 \<Longrightarrow> from_hex_char (char_of (unat (hex_digit n))) = Some n"
proof -
  assume n: "n < 16"
  then have "unat n < 16"
    by (simp add: word_less_nat_alt)
  then show ?thesis
    using n by (auto simp: from_hex_char_def unat_hex_digit Let_def)
qed

lemma byte_15_mask: "(15 :: byte) = mask 4"
  by (simp add: mask_eq_exp_minus_1)

lemma nibbles_join: "or (push_bit 4 (drop_bit 4 b)) (and b 15) = (b :: byte)"
proof (rule bit_word_eqI)
  fix n :: nat
  assume "n < LENGTH(8)"
  then show "bit (or (push_bit 4 (drop_bit 4 b)) (and b 15)) n = bit b n"
    by (auto simp only: byte_15_mask bit_simps) (auto simp: bit_simps)
qed

lemma nibble_bounds: "drop_bit 4 (b :: byte) < 16" "and (b :: byte) 15 < 16"
proof -
  show "and b 15 < 16"
    using and_mask_less' [of 4 b] byte_15_mask by simp
  have "unat b < 2 ^ LENGTH(8)"
    by (rule unsigned_less)
  then have "unat b div 16 < 16"
    by simp
  moreover have "unat (drop_bit 4 b) = unat b div 16"
    by (simp add: unat_drop_bit_eq drop_bit_eq_div unat_div)
  ultimately show "drop_bit 4 b < 16"
    by (simp add: word_less_nat_alt)
qed

lemma decode_encode: "decode (string_of (encode bs)) = bs"
proof (induction bs)
  case Nil
  then show ?case
    by (simp add: string_of_def)
next
  case (Cons b bs)
  then show ?case
    using nibble_bounds [of b]
    by (simp add: string_of_def from_hex_digit nibbles_join del: drop_bit_eq_div)
qed

lemma length_encode [simp]: "length (encode bs) = 2 * length bs"
  by (induction bs) auto

text \<open>The hexadecimal rendering of a key starts with 0x, has 66 characters and decodes back to
  the key's bytes.\<close>
theorem Key_Hex_roundtrip:
  assumes "key_wf k"
  shows "has0xPrefix (Key_Hex k) \<and> length (Key_Hex k) = 66 \<and> decode (drop 2 (Key_Hex k)) = k"
proof -
  have "Key_Hex k = ''0x'' @ string_of (encode k)"
    by (simp only: Key_Hex_def key_hex_def string_of_append string_of_bytes_of)
  then show ?thesis
    using assms by (simp add: has0xPrefix_def key_wf_def keyLen_def decode_encode)
qed

theorem Key_Hex_roundtrip_witness:
  "key_wf zero_key \<and> decode (drop 2 (Key_Hex zero_key)) = zero_key"
  using Key_Hex_roundtrip [of zero_key] by simp

section \<open>HexToKey does not parse hexadecimal\<close>

lemma drop_encode: "drop (2 * n) (encode bs) = encode (drop n bs)"
proof (induction bs arbitrary: n)
  case Nil
  then show ?case by simp
next
  case (Cons b bs)
  then show ?case
    by (cases n) auto
qed

lemma hex_digit_not_x: "n < 16 \<Longrightarrow> char_of (unat (hex_digit n)) \<noteq> CHR ''x''"
proof
  assume n: "n < 16" and "char_of (unat (hex_digit n)) = CHR ''x''"
  then have "(of_char (char_of (unat (hex_digit n))) :: nat) = 120"
    by simp
  moreover have "unat n < 16"
    using n by (simp add: word_less_nat_alt)
  ultimately show False
    by (auto simp: unat_hex_digit n split: if_splits)
qed

lemma encode_no_prefix: "\<not> has0xPrefix (string_of (encode bs))"
proof (cases bs)
  case Nil
  then show ?thesis
    by (simp add: has0xPrefix_def)
next
  case (Cons b bs')
  then show ?thesis
    using hex_digit_not_x [OF nibble_bounds(2) [of b]]
    by (simp add: has0xPrefix_def string_of_def)
qed

text \<open>\<^verbatim>\<open>HexToKey\<close> keeps the last 32 characters of the hexadecimal text as raw bytes instead of
  decoding them: applied to the rendering of a key it yields the characters of the key's second
  half, whatever the first sixteen bytes were.\<close>
theorem HexToKey_keeps_characters:
  assumes "key_wf k"
  shows "HexToKey (Key_Hex k) = encode (drop 16 k)"
proof -
  have "Key_Hex k = ''0x'' @ string_of (encode k)"
    by (simp only: Key_Hex_def key_hex_def string_of_append string_of_bytes_of)
  then have "HexToKey (Key_Hex k) = BytesToKey (encode k)"
    using encode_no_prefix [of k] by (simp add: HexToKey_def StringToKey_def) (simp add: has0xPrefix_def)
  also have "\<dots> = drop (2 * 16) (encode k)"
    using assms by (subst BytesToKey_long) (simp_all add: keyLen_def key_wf_def)
  also have "\<dots> = encode (drop 16 k)"
    by (rule drop_encode)
  finally show ?thesis .
qed

theorem HexToKey_keeps_characters_witness:
  "HexToKey (Key_Hex zero_key) = replicate 32 48 \<and> HexToKey (Key_Hex zero_key) \<noteq> zero_key"
proof -
  have "encode (drop 16 zero_key) = replicate 32 48"
    by code_simp
  moreover have "replicate 32 48 \<noteq> zero_key"
    by code_simp
  ultimately show ?thesis
    using HexToKey_keeps_characters [OF key_wf_zero] by simp
qed

end
