(* ===== verification/GoValue.thy ===== *)
theory GoValue
  imports Prelude
begin

text \<open>
  The Go values a table can hold (\<^verbatim>\<open>any\<close>), the parts of the standard library that look at them
  through reflection, and \<^verbatim>\<open>deepCopyValue\<close> of \<^verbatim>\<open>database.go\<close>.

  Integers keep the width of their Go type; \<^verbatim>\<open>int\<close> and \<^verbatim>\<open>uint\<close> are 64 bits wide. Floating-point
  numbers are their IEEE bit patterns. A struct value lists its fields with their name, their
  \<^verbatim>\<open>json\<close> tag (empty when there is none) and their value; all fields are exported, because
  reflection cannot read the others. Maps and slices are non-nil. A pointer is \<^const>\<open>None\<close> when
  nil.
\<close>

datatype goval =
    VNil
  | VBool bool
  | VInt "64 word" | VInt8 "8 word" | VInt16 "16 word" | VInt32 "32 word" | VInt64 "64 word"
  | VUint "64 word" | VUint8 "8 word" | VUint16 "16 word" | VUint32 "32 word" | VUint64 "64 word"
  | VFloat32 "32 word"
  | VFloat64 "64 word"
  | VString string
  | VBytes bytes                                      \<comment> \<open>\<^verbatim>\<open>[]byte\<close>\<close>
  | VMap "(string \<times> goval) list"                      \<comment> \<open>\<^verbatim>\<open>map[string]any\<close>\<close>
  | VSlice "goval list"                               \<comment> \<open>\<^verbatim>\<open>[]any\<close>\<close>
  | VTSlice string "goval list"                       \<comment> \<open>a slice of another element type\<close>
  | VArray string "goval list"                        \<comment> \<open>an array, with its element type\<close>
  | VStruct string "(string \<times> string \<times> goval) list"  \<comment> \<open>type name, fields\<close>
  | VPtr string "goval option"

text \<open>
  What the program takes from its surroundings when it handles values: the \<^verbatim>\<open>String\<close> method of a
  caller's type, and the conversions of floating-point numbers, pointers and non-ASCII letters that
  depend on tables of the standard library. \<open>json_marshal\<close> and \<open>json_unmarshal\<close> are
  \<^verbatim>\<open>encoding/json\<close>, which sees the tags and \<^verbatim>\<open>MarshalJSON\<close> methods of the caller's types.
\<close>

record golib =
  lib_stringer :: "goval \<Rightarrow> string option"       \<comment> \<open>the value's \<^verbatim>\<open>String()\<close>, if its type has one\<close>
  lib_fmt_float :: "goval \<Rightarrow> string"             \<comment> \<open>\<^verbatim>\<open>%v\<close> of a float\<close>
  lib_fmt_ptr :: "goval \<Rightarrow> string"               \<comment> \<open>\<^verbatim>\<open>%v\<close> of a pointer\<close>
  lib_lower :: "string \<Rightarrow> string"                \<comment> \<open>\<^verbatim>\<open>strings.ToLower\<close> off ASCII\<close>
  lib_fold :: "string \<Rightarrow> string \<Rightarrow> bool"         \<comment> \<open>\<^verbatim>\<open>strings.EqualFold\<close> off ASCII\<close>
  lib_float32 :: "32 word \<Rightarrow> string"             \<comment> \<open>\<^verbatim>\<open>strconv.AppendFloat(_, 'f', -1, 32)\<close>\<close>
  lib_float64 :: "64 word \<Rightarrow> string"             \<comment> \<open>\<^verbatim>\<open>strconv.AppendFloat(_, 'f', -1, 64)\<close>\<close>
  lib_parse_float :: "string \<Rightarrow> 64 word option"   \<comment> \<open>\<^verbatim>\<open>strconv.ParseFloat(_, 64)\<close>\<close>
  json_marshal :: "goval \<Rightarrow> bytes option"
  json_indent :: "goval \<Rightarrow> bytes option"         \<comment> \<open>\<^verbatim>\<open>json.MarshalIndent\<close>\<close>
  json_unmarshal :: "bytes \<Rightarrow> goval option"       \<comment> \<open>into a variable of type \<^verbatim>\<open>any\<close>\<close>

text \<open>A library without user methods and without JSON, for closed examples.\<close>

definition sample_lib :: golib where
  "sample_lib =
     \<lparr>lib_stringer = (\<lambda>_. None), lib_fmt_float = (\<lambda>_. ''0''), lib_fmt_ptr = (\<lambda>_. ''0x0''),
      lib_lower = (\<lambda>s. s), lib_fold = (=), lib_float32 = (\<lambda>_. ''0''), lib_float64 = (\<lambda>_. ''0''),
      lib_parse_float = (\<lambda>_. None), json_marshal = (\<lambda>_. None),
      json_indent = (\<lambda>_. None), json_unmarshal = (\<lambda>_. None)\<rparr>"

section \<open>strings and fmt\<close>

definition ascii :: "string \<Rightarrow> bool" where
  "ascii s \<longleftrightarrow> list_all (\<lambda>c. (of_char c :: nat) < 128) s"

definition lower_char :: "char \<Rightarrow> char" where
  "lower_char c = (let n = of_char c :: nat in if 65 \<le> n \<and> n \<le> 90 then char_of (n + 32) else c)"

definition ToLower :: "golib \<Rightarrow> string \<Rightarrow> string" where
  "ToLower L s = (if ascii s then map lower_char s else lib_lower L s)"

definition EqualFold :: "golib \<Rightarrow> string \<Rightarrow> string \<Rightarrow> bool" where
  "EqualFold L s t =
     (if ascii s \<and> ascii t then map lower_char s = map lower_char t else lib_fold L s t)"

fun join_with :: "string \<Rightarrow> string list \<Rightarrow> string" where
  "join_with sep [] = []"
| "join_with sep [s] = s"
| "join_with sep (s # t # ss) = s @ sep @ join_with sep (t # ss)"

text \<open>\<^verbatim>\<open>fmt.Sprintf("%v", v)\<close>: a \<^verbatim>\<open>String\<close> method wins at every depth; map keys are sorted.\<close>

fun fmt_v :: "golib \<Rightarrow> goval \<Rightarrow> string" where
  "fmt_v L v =
     (case lib_stringer L v of Some s \<Rightarrow> s | None \<Rightarrow>
       (case v of
          VNil \<Rightarrow> ''<nil>''
        | VBool b \<Rightarrow> (if b then ''true'' else ''false'')
        | VInt w \<Rightarrow> dec_int (sint w) | VInt8 w \<Rightarrow> dec_int (sint w) | VInt16 w \<Rightarrow> dec_int (sint w)
        | VInt32 w \<Rightarrow> dec_int (sint w) | VInt64 w \<Rightarrow> dec_int (sint w)
        | VUint w \<Rightarrow> dec_nat (unat w) | VUint8 w \<Rightarrow> dec_nat (unat w) | VUint16 w \<Rightarrow> dec_nat (unat w)
        | VUint32 w \<Rightarrow> dec_nat (unat w) | VUint64 w \<Rightarrow> dec_nat (unat w)
        | VFloat32 _ \<Rightarrow> lib_fmt_float L v
        | VFloat64 _ \<Rightarrow> lib_fmt_float L v
        | VString s \<Rightarrow> s
        | VBytes b \<Rightarrow> ''['' @ join_with '' '' (map (\<lambda>w. dec_nat (unat w)) b) @ '']''
        | VMap m \<Rightarrow> ''map['' @ join_with '' '' (map (\<lambda>(k, s). k @ '':'' @ s)
              (sort_key fst (map (\<lambda>p. (fst p, fmt_v L (snd p))) m))) @ '']''
        | VSlice xs \<Rightarrow> ''['' @ join_with '' '' (map (fmt_v L) xs) @ '']''
        | VTSlice _ xs \<Rightarrow> ''['' @ join_with '' '' (map (fmt_v L) xs) @ '']''
        | VArray _ xs \<Rightarrow> ''['' @ join_with '' '' (map (fmt_v L) xs) @ '']''
        | VStruct _ fs \<Rightarrow> ''{'' @ join_with '' '' (map (\<lambda>f. fmt_v L (snd (snd f))) fs) @ ''}''
        | VPtr _ _ \<Rightarrow> lib_fmt_ptr L v))"

declare fmt_v.simps [simp del]

section \<open>deepCopyValue\<close>

text \<open>
  Every value the type switch does not name (typed slices, arrays, structs, pointers) goes through
  JSON and comes back as JSON's own types; when JSON fails, the value itself is returned, shared.
\<close>

definition json_copy :: "golib \<Rightarrow> goval \<Rightarrow> goval" where
  "json_copy L v =
     (case json_marshal L v of None \<Rightarrow> v
      | Some data \<Rightarrow> (case json_unmarshal L data of None \<Rightarrow> v | Some r \<Rightarrow> r))"

fun deepCopyValue :: "golib \<Rightarrow> goval \<Rightarrow> goval" where
  "deepCopyValue L (VMap m) = VMap (map (\<lambda>p. (fst p, deepCopyValue L (snd p))) m)"
| "deepCopyValue L (VSlice xs) = VSlice (map (deepCopyValue L) xs)"
| "deepCopyValue L (VTSlice t xs) = json_copy L (VTSlice t xs)"
| "deepCopyValue L (VArray t xs) = json_copy L (VArray t xs)"
| "deepCopyValue L (VStruct t fs) = json_copy L (VStruct t fs)"
| "deepCopyValue L (VPtr t p) = json_copy L (VPtr t p)"
| "deepCopyValue L v = v"

text \<open>The values the type switch copies itself: what JSON decoding produces, integers and bytes.\<close>

fun plain :: "goval \<Rightarrow> bool" where
  "plain (VMap m) = list_all (\<lambda>p. plain (snd p)) m"
| "plain (VSlice xs) = list_all plain xs"
| "plain (VTSlice _ _) = False"
| "plain (VArray _ _) = False"
| "plain (VStruct _ _) = False"
| "plain (VPtr _ _) = False"
| "plain _ = True"

lemma deepCopy_plain: "plain v \<Longrightarrow> deepCopyValue L v = v"
proof (induction L v rule: deepCopyValue.induct)
  case (1 L m)
  then have "map (\<lambda>p. (fst p, deepCopyValue L (snd p))) m = m"
    by (auto simp: list_all_iff intro!: map_idI)
  then show ?case by simp
next
  case (2 L xs)
  then show ?case
    by (auto simp: list_all_iff intro!: map_idI)
qed auto

end
