(* ===== verification/Encoding.thy ===== *)
theory Encoding
  imports GoValue
begin

text \<open>
  \<^verbatim>\<open>modules/encoding/serialize.go\<close>: a value is written as one type tag and a payload. Numbers are
  printed in decimal; everything the type switch does not name goes through JSON. \<open>wire_norm\<close> is
  the value that comes back: integers of any width return as \<^verbatim>\<open>int64\<close> or \<^verbatim>\<open>uint64\<close>.
\<close>

definition tagNil :: byte where "tagNil = 0"
definition tagBytes :: byte where "tagBytes = 1"
definition tagString :: byte where "tagString = 2"
definition tagInt :: byte where "tagInt = 3"
definition tagUint :: byte where "tagUint = 4"
definition tagFloat :: byte where "tagFloat = 5"
definition tagBool :: byte where "tagBool = 6"
definition tagJSON :: byte where "tagJSON = 7"

lemmas tag_defs = tagNil_def tagBytes_def tagString_def tagInt_def tagUint_def tagFloat_def
  tagBool_def tagJSON_def

section \<open>strconv\<close>

definition ParseUint64 :: "string \<Rightarrow> 64 word option" where
  "ParseUint64 s =
     (case parse_nat s of None \<Rightarrow> None | Some n \<Rightarrow> if n < 2 ^ 64 then Some (of_nat n) else None)"

definition ParseInt64 :: "string \<Rightarrow> 64 word option" where
  "ParseInt64 s =
     (let (neg, t) = (case s of
            CHR ''-'' # cs \<Rightarrow> (True, cs) | CHR ''+'' # cs \<Rightarrow> (False, cs) | _ \<Rightarrow> (False, s))
      in case parse_nat t of None \<Rightarrow> None
         | Some n \<Rightarrow>
             if \<not> neg \<and> 2 ^ 63 \<le> n \<or> neg \<and> 2 ^ 63 < n then None
             else Some (of_int (if neg then - int n else int n)))"

section \<open>The two functions\<close>

fun SerializeValue :: "golib \<Rightarrow> goval \<Rightarrow> bytes res" where
  "SerializeValue L VNil = Inr [tagNil]"
| "SerializeValue L (VBytes b) = Inr (tagBytes # b)"
| "SerializeValue L (VString s) = Inr (tagString # bytes_of s)"
| "SerializeValue L (VInt w) = Inr (tagInt # bytes_of (dec_int (sint w)))"
| "SerializeValue L (VInt8 w) = Inr (tagInt # bytes_of (dec_int (sint w)))"
| "SerializeValue L (VInt16 w) = Inr (tagInt # bytes_of (dec_int (sint w)))"
| "SerializeValue L (VInt32 w) = Inr (tagInt # bytes_of (dec_int (sint w)))"
| "SerializeValue L (VInt64 w) = Inr (tagInt # bytes_of (dec_int (sint w)))"
| "SerializeValue L (VUint w) = Inr (tagUint # bytes_of (dec_nat (unat w)))"
| "SerializeValue L (VUint8 w) = Inr (tagUint # bytes_of (dec_nat (unat w)))"
| "SerializeValue L (VUint16 w) = Inr (tagUint # bytes_of (dec_nat (unat w)))"
| "SerializeValue L (VUint32 w) = Inr (tagUint # bytes_of (dec_nat (unat w)))"
| "SerializeValue L (VUint64 w) = Inr (tagUint # bytes_of (dec_nat (unat w)))"
| "SerializeValue L (VFloat32 w) = Inr (tagFloat # bytes_of (lib_float32 L w))"
| "SerializeValue L (VFloat64 w) = Inr (tagFloat # bytes_of (lib_float64 L w))"
| "SerializeValue L (VBool b) = Inr [tagBool, if b then 1 else 0]"
| "SerializeValue L v =
     (case json_marshal L v of None \<Rightarrow> Inl ErrSerialize | Some data \<Rightarrow> Inr (tagJSON # data))"

definition DeserializeValue :: "golib \<Rightarrow> bytes \<Rightarrow> goval res" where
  "DeserializeValue L data =
     (case data of
        [] \<Rightarrow> Inr VNil
      | tag # payload \<Rightarrow>
          if tag = tagNil then Inr VNil
          else if tag = tagBytes then Inr (VBytes payload)
          else if tag = tagString then Inr (VString (string_of payload))
          else if tag = tagInt then
            (case ParseInt64 (string_of payload) of None \<Rightarrow> Inl ErrDeserialize | Some w \<Rightarrow> Inr (VInt64 w))
          else if tag = tagUint then
            (case ParseUint64 (string_of payload) of None \<Rightarrow> Inl ErrDeserialize | Some w \<Rightarrow> Inr (VUint64 w))
          else if tag = tagFloat then
            (case lib_parse_float L (string_of payload) of None \<Rightarrow> Inl ErrDeserialize | Some w \<Rightarrow> Inr (VFloat64 w))
          else if tag = tagBool then
            (case payload of [] \<Rightarrow> Inl ErrDeserialize | b # _ \<Rightarrow> Inr (VBool (b = 1)))
          else if tag = tagJSON then
            (case json_unmarshal L payload of None \<Rightarrow> Inl ErrDeserialize | Some v \<Rightarrow> Inr v)
          else Inl ErrDeserialize)"

section \<open>Round trip\<close>

text \<open>The value a scalar comes back as.\<close>

fun wire_norm :: "goval \<Rightarrow> goval" where
  "wire_norm (VInt w) = VInt64 w"
| "wire_norm (VInt8 w) = VInt64 (scast w)"
| "wire_norm (VInt16 w) = VInt64 (scast w)"
| "wire_norm (VInt32 w) = VInt64 (scast w)"
| "wire_norm (VUint w) = VUint64 w"
| "wire_norm (VUint8 w) = VUint64 (ucast w)"
| "wire_norm (VUint16 w) = VUint64 (ucast w)"
| "wire_norm (VUint32 w) = VUint64 (ucast w)"
| "wire_norm v = v"

fun wire_scalar :: "goval \<Rightarrow> bool" where
  "wire_scalar (VFloat32 _) = False"
| "wire_scalar (VFloat64 _) = False"
| "wire_scalar (VMap _) = False"
| "wire_scalar (VSlice _) = False"
| "wire_scalar (VTSlice _ _) = False"
| "wire_scalar (VArray _ _) = False"
| "wire_scalar (VStruct _ _) = False"
| "wire_scalar (VPtr _ _) = False"
| "wire_scalar _ = True"

lemma ParseUint64_dec [simp]: "n < 2 ^ 64 \<Longrightarrow> ParseUint64 (dec_nat n) = Some (of_nat n)"
  by (simp add: ParseUint64_def)

lemma ParseUint64_dec_unat:
  fixes w :: "'a::len word"
  assumes "LENGTH('a) \<le> 64"
  shows "ParseUint64 (dec_nat (unat w)) = Some (ucast w)"
proof -
  have "unat w < 2 ^ LENGTH('a)"
    by (rule unsigned_less)
  also have "(2::nat) ^ LENGTH('a) \<le> 2 ^ 64"
    using assms by (rule power_increasing) simp
  finally have "unat w < 2 ^ 64" .
  then show ?thesis
    by simp
qed

lemma dec_int_split:
  "(case dec_int i of CHR ''-'' # cs \<Rightarrow> (True, cs) | CHR ''+'' # cs \<Rightarrow> (False, cs) | _ \<Rightarrow> (False, dec_int i))
    = (i < 0, dec_nat (nat \<bar>i\<bar>))"
proof (cases "i < 0")
  case True
  then show ?thesis
    by (simp add: dec_int_def)
next
  case False
  obtain c cs where c: "dec_nat (nat i) = c # cs" "c \<noteq> CHR ''-''" "c \<noteq> CHR ''+''"
    by (rule dec_nat_no_sign)
  from False have "dec_int i = c # cs" "dec_nat (nat \<bar>i\<bar>) = c # cs"
    by (simp_all add: dec_int_def c(1))
  with False c(2,3) show ?thesis
    by (auto split: char.split bool.split)
qed

lemma ParseInt64_dec:
  assumes "- (2 ^ 63) \<le> i" "i < 2 ^ 63"
  shows "ParseInt64 (dec_int i) = Some (of_int i)"
  unfolding ParseInt64_def dec_int_split Let_def
  using assms by (auto simp: nat_le_iff le_nat_iff)

lemma ParseInt64_dec_sint:
  fixes w :: "'a::len word"
  assumes "LENGTH('a) \<le> 64"
  shows "ParseInt64 (dec_int (sint w)) = Some (scast w)"
proof -
  have "(2::int) ^ (LENGTH('a) - 1) \<le> 2 ^ 63"
    using assms by (intro power_increasing) auto
  moreover have "- (2 ^ (LENGTH('a) - 1)) \<le> sint w" "sint w < 2 ^ (LENGTH('a) - 1)"
    by (rule sint_ge, rule sint_lt)
  ultimately have "ParseInt64 (dec_int (sint w)) = Some (of_int (sint w))"
    by (intro ParseInt64_dec) linarith+
  then show ?thesis
    by simp
qed

lemma ParseInt64_int [simp]: "ParseInt64 (dec_int (sint (w :: 64 word))) = Some w"
  "ParseInt64 (dec_int (sint (w32 :: 32 word))) = Some (scast w32)"
  "ParseInt64 (dec_int (sint (w16 :: 16 word))) = Some (scast w16)"
  "ParseInt64 (dec_int (sint (w8 :: 8 word))) = Some (scast w8)"
  by (simp_all add: ParseInt64_dec_sint)

lemma ParseUint64_uint [simp]: "ParseUint64 (dec_nat (unat (w :: 64 word))) = Some w"
  "ParseUint64 (dec_nat (unat (w32 :: 32 word))) = Some (ucast w32)"
  "ParseUint64 (dec_nat (unat (w16 :: 16 word))) = Some (ucast w16)"
  "ParseUint64 (dec_nat (unat (w8 :: 8 word))) = Some (ucast w8)"
  by (simp_all add: ParseUint64_dec_unat)

lemma serialize_wire:
  "wire_scalar v \<Longrightarrow> \<exists>b. SerializeValue L v = Inr b \<and> b \<noteq> [] \<and> DeserializeValue L b = Inr (wire_norm v)"
  by (cases v) (simp_all add: DeserializeValue_def tag_defs)

text \<open>C19: nil, byte slices, strings, booleans and integers of every width survive
  \<^verbatim>\<open>SerializeValue\<close> and \<^verbatim>\<open>DeserializeValue\<close>, up to the widening of integers to 64 bits.\<close>
theorem SerializeValue_roundtrip:
  assumes "wire_scalar v"
  shows "\<exists>b. SerializeValue L v = Inr b \<and> DeserializeValue L b = Inr (wire_norm v)"
  using serialize_wire [OF assms] by blast

theorem SerializeValue_roundtrip_witness:
  "\<exists>b. SerializeValue sample_lib (VInt8 (- 7)) = Inr b \<and> DeserializeValue sample_lib b = Inr (VInt64 (- 7))"
  using SerializeValue_roundtrip [of "VInt8 (- 7)" sample_lib] by simp

text \<open>The tag tells values apart whose payload bytes agree: two values with the same encoding
  have the same decoded form, so no byte slice, string, number or boolean is mistaken for another.\<close>
theorem SerializeValue_injective:
  assumes "wire_scalar v" "wire_scalar v'" "SerializeValue L v = SerializeValue L v'"
  shows "wire_norm v = wire_norm v'"
  using serialize_wire [OF assms(1), of L] serialize_wire [OF assms(2), of L] assms(3) by auto

theorem SerializeValue_injective_witness:
  "SerializeValue sample_lib (VInt8 7) = SerializeValue sample_lib (VInt64 7) \<and>
   wire_norm (VInt8 7) = wire_norm (VInt64 7)"
proof -
  have e: "SerializeValue sample_lib (VInt8 7) = SerializeValue sample_lib (VInt64 7)"
    by simp
  then show ?thesis
    using SerializeValue_injective [OF _ _ e] by simp
qed

text \<open>The Go type of an integer is not preserved: an \<^verbatim>\<open>int\<close> that is written to the log comes back
  as an \<^verbatim>\<open>int64\<close>, a different dynamic type, whatever its value.\<close>
theorem int_type_lost:
  "\<exists>b. SerializeValue L (VInt w) = Inr b \<and> DeserializeValue L b = Inr (VInt64 w)
       \<and> VInt64 w \<noteq> VInt w"
  by (simp add: DeserializeValue_def tag_defs)

end
