(* ===== verification/Crypto.thy ===== *)
theory Crypto
  imports Keys
begin

text \<open>
  \<^verbatim>\<open>modules/crypto/crypto.go\<close>: AES-256 in Galois/counter mode, with the nonce in front of the
  ciphertext. The standard library's cipher is modelled as FIPS 197 and SP 800-38D define it: the
  block cipher on 128-bit words, the counter mode and the GHASH tag. The random nonce is an
  argument: \<^const>\<open>None\<close> when the system's random source fails. A \<^verbatim>\<open>Key\<close> has 32 bytes, so
  \<^verbatim>\<open>aes.NewCipher\<close> and \<^verbatim>\<open>cipher.NewGCM\<close> return no error.
\<close>

unbundle bit_operations_syntax

section \<open>Blocks and bytes\<close>

type_synonym block = "128 word"

definition block_bytes :: "block \<Rightarrow> bytes" where
  "block_bytes w = map (\<lambda>i. ucast (drop_bit (8 * (15 - i)) w)) [0..<16]"

definition bytes_block :: "bytes \<Rightarrow> block" where
  "bytes_block bs = foldl (\<lambda>a b. push_bit 8 a OR ucast b) 0 bs"

lemma length_block_bytes [simp]: "length (block_bytes w) = 16"
  by (simp add: block_bytes_def)

definition xor_bytes :: "bytes \<Rightarrow> bytes \<Rightarrow> bytes" where
  "xor_bytes a b = map2 (XOR) a b"

section \<open>AES-256 (FIPS 197)\<close>

definition sbox :: "byte list" where
  "sbox = [
     0x63, 0x7c, 0x77, 0x7b, 0xf2, 0x6b, 0x6f, 0xc5, 0x30, 0x01, 0x67, 0x2b, 0xfe, 0xd7, 0xab, 0x76,
     0xca, 0x82, 0xc9, 0x7d, 0xfa, 0x59, 0x47, 0xf0, 0xad, 0xd4, 0xa2, 0xaf, 0x9c, 0xa4, 0x72, 0xc0,
     0xb7, 0xfd, 0x93, 0x26, 0x36, 0x3f, 0xf7, 0xcc, 0x34, 0xa5, 0xe5, 0xf1, 0x71, 0xd8, 0x31, 0x15,
     0x04, 0xc7, 0x23, 0xc3, 0x18, 0x96, 0x05, 0x9a, 0x07, 0x12, 0x80, 0xe2, 0xeb, 0x27, 0xb2, 0x75,
     0x09, 0x83, 0x2c, 0x1a, 0x1b, 0x6e, 0x5a, 0xa0, 0x52, 0x3b, 0xd6, 0xb3, 0x29, 0xe3, 0x2f, 0x84,
     0x53, 0xd1, 0x00, 0xed, 0x20, 0xfc, 0xb1, 0x5b, 0x6a, 0xcb, 0xbe, 0x39, 0x4a, 0x4c, 0x58, 0xcf,
     0xd0, 0xef, 0xaa, 0xfb, 0x43, 0x4d, 0x33, 0x85, 0x45, 0xf9, 0x02, 0x7f, 0x50, 0x3c, 0x9f, 0xa8,
     0x51, 0xa3, 0x40, 0x8f, 0x92, 0x9d, 0x38, 0xf5, 0xbc, 0xb6, 0xda, 0x21, 0x10, 0xff, 0xf3, 0xd2,
     0xcd, 0x0c, 0x13, 0xec, 0x5f, 0x97, 0x44, 0x17, 0xc4, 0xa7, 0x7e, 0x3d, 0x64, 0x5d, 0x19, 0x73,
     0x60, 0x81, 0x4f, 0xdc, 0x22, 0x2a, 0x90, 0x88, 0x46, 0xee, 0xb8, 0x14, 0xde, 0x5e, 0x0b, 0xdb,
     0xe0, 0x32, 0x3a, 0x0a, 0x49, 0x06, 0x24, 0x5c, 0xc2, 0xd3, 0xac, 0x62, 0x91, 0x95, 0xe4, 0x79,
     0xe7, 0xc8, 0x37, 0x6d, 0x8d, 0xd5, 0x4e, 0xa9, 0x6c, 0x56, 0xf4, 0xea, 0x65, 0x7a, 0xae, 0x08,
     0xba, 0x78, 0x25, 0x2e, 0x1c, 0xa6, 0xb4, 0xc6, 0xe8, 0xdd, 0x74, 0x1f, 0x4b, 0xbd, 0x8b, 0x8a,
     0x70, 0x3e, 0xb5, 0x66, 0x48, 0x03, 0xf6, 0x0e, 0x61, 0x35, 0x57, 0xb9, 0x86, 0xc1, 0x1d, 0x9e,
     0xe1, 0xf8, 0x98, 0x11, 0x69, 0xd9, 0x8e, 0x94, 0x9b, 0x1e, 0x87, 0xe9, 0xce, 0x55, 0x28, 0xdf,
     0x8c, 0xa1, 0x89, 0x0d, 0xbf, 0xe6, 0x42, 0x68, 0x41, 0x99, 0x2d, 0x0f, 0xb0, 0x54, 0xbb, 0x16]"

definition sub_byte :: "byte \<Rightarrow> byte" where
  "sub_byte b = sbox ! unat b"

definition xtime :: "byte \<Rightarrow> byte" where
  "xtime b = push_bit 1 b XOR (if bit b 7 then 0x1b else 0)"

definition shift_rows :: "bytes \<Rightarrow> bytes" where
  "shift_rows s = map (\<lambda>i. s ! i) [0, 5, 10, 15, 4, 9, 14, 3, 8, 13, 2, 7, 12, 1, 6, 11]"

fun mix_columns :: "bytes \<Rightarrow> bytes" where
  "mix_columns (a # b # c # d # s) =
     (let m3 = (\<lambda>x. xtime x XOR x) in
      [xtime a XOR m3 b XOR c XOR d, a XOR xtime b XOR m3 c XOR d,
       a XOR b XOR xtime c XOR m3 d, m3 a XOR b XOR c XOR xtime d] @ mix_columns s)"
| "mix_columns s = []"

definition rcon :: "byte list" where
  "rcon = [0x01, 0x02, 0x04, 0x08, 0x10, 0x20, 0x40]"

text \<open>The key schedule: four-byte words 8 to 59, computed from the eight words of the key.\<close>

definition next_key_word :: "bytes list \<Rightarrow> nat \<Rightarrow> bytes" where
  "next_key_word ws i =
     (let t = ws ! (i - 1);
          t = (if i mod 8 = 0
               then xor_bytes (map sub_byte (tl t @ [hd t])) [rcon ! (i div 8 - 1), 0, 0, 0]
               else if i mod 8 = 4 then map sub_byte t else t)
      in xor_bytes (ws ! (i - 8)) t)"

definition key_schedule :: "key \<Rightarrow> bytes list" where
  "key_schedule k =
     foldl (\<lambda>ws i. ws @ [next_key_word ws i])
       (map (\<lambda>j. take 4 (drop (4 * j) k)) [0..<8]) [8..<60]"

definition round_key :: "bytes list \<Rightarrow> nat \<Rightarrow> bytes" where
  "round_key ws r = concat (take 4 (drop (4 * r) ws))"

definition aes_encrypt :: "key \<Rightarrow> block \<Rightarrow> block" where
  "aes_encrypt k b =
     (let ws = key_schedule k;
          s0 = xor_bytes (block_bytes b) (round_key ws 0);
          s13 = foldl (\<lambda>s r. xor_bytes (mix_columns (shift_rows (map sub_byte s))) (round_key ws r))
                  s0 [1..<14]
      in bytes_block (xor_bytes (shift_rows (map sub_byte s13)) (round_key ws 14)))"

section \<open>Galois/counter mode (SP 800-38D), 96-bit nonce, no additional data\<close>

definition nonceSize :: nat where
  "nonceSize = 12"

definition tagSize :: nat where
  "tagSize = 16"

fun gf_mult_loop :: "nat \<Rightarrow> block \<Rightarrow> block \<Rightarrow> block \<Rightarrow> block" where
  "gf_mult_loop 0 x z v = z"
| "gf_mult_loop (Suc n) x z v =
     gf_mult_loop n x (if bit x n then z XOR v else z)
       (if bit v 0 then drop_bit 1 v XOR push_bit 120 0xe1 else drop_bit 1 v)"

definition gf_mult :: "block \<Rightarrow> block \<Rightarrow> block" where
  "gf_mult x y = gf_mult_loop 128 x 0 y"

text \<open>The blocks of the ciphertext, the last one padded with zero bytes.\<close>

fun pad_blocks :: "bytes \<Rightarrow> block list" where
  "pad_blocks bs =
     (if bs = [] then []
      else bytes_block (take 16 bs @ replicate (16 - length bs) 0) # pad_blocks (drop 16 bs))"

declare pad_blocks.simps [simp del]

definition ghash :: "block \<Rightarrow> bytes \<Rightarrow> block" where
  "ghash h ct = foldl (\<lambda>y x. gf_mult (y XOR x) h) 0 (pad_blocks ct @ [of_nat (8 * length ct)])"

definition inc32 :: "block \<Rightarrow> block" where
  "inc32 c = (c AND NOT (mask 32)) OR take_bit 32 (c + 1)"

fun ctr_crypt :: "key \<Rightarrow> block \<Rightarrow> bytes \<Rightarrow> bytes" where
  "ctr_crypt k c bs =
     (if bs = [] then []
      else xor_bytes (take 16 bs) (block_bytes (aes_encrypt k c)) @ ctr_crypt k (inc32 c) (drop 16 bs))"

declare ctr_crypt.simps [simp del]

definition gcm_j0 :: "bytes \<Rightarrow> block" where
  "gcm_j0 nonce = bytes_block (nonce @ [0, 0, 0, 1])"

definition gcm_tag :: "key \<Rightarrow> bytes \<Rightarrow> bytes \<Rightarrow> bytes" where
  "gcm_tag k nonce ct =
     block_bytes (ghash (aes_encrypt k 0) ct XOR aes_encrypt k (gcm_j0 nonce))"

definition gcm_seal :: "key \<Rightarrow> bytes \<Rightarrow> bytes \<Rightarrow> bytes" where
  "gcm_seal k nonce pt =
     (let ct = ctr_crypt k (inc32 (gcm_j0 nonce)) pt in ct @ gcm_tag k nonce ct)"

definition gcm_open :: "key \<Rightarrow> bytes \<Rightarrow> bytes \<Rightarrow> bytes option" where
  "gcm_open k nonce data =
     (if length data < tagSize then None
      else let ct = take (length data - tagSize) data; tag = drop (length data - tagSize) data
           in if tag = gcm_tag k nonce ct then Some (ctr_crypt k (inc32 (gcm_j0 nonce)) ct) else None)"

section \<open>crypto.go\<close>

definition Encrypt :: "bytes option \<Rightarrow> bytes \<Rightarrow> key \<Rightarrow> bytes res" where
  "Encrypt rnd data key =
     (case rnd of None \<Rightarrow> Inl ErrRand | Some nonce \<Rightarrow> Inr (nonce @ gcm_seal key nonce data))"

definition Decrypt :: "bytes \<Rightarrow> key \<Rightarrow> bytes res" where
  "Decrypt encryptedData key =
     (if length encryptedData < nonceSize then Inl ErrDecrypt
      else (case gcm_open key (take nonceSize encryptedData) (drop nonceSize encryptedData) of
              None \<Rightarrow> Inl ErrDecrypt | Some pt \<Rightarrow> Inr pt))"

section \<open>Lemmas\<close>

lemma xor_bytes_twice: "length a \<le> length b \<Longrightarrow> xor_bytes (xor_bytes a b) b = a"
  by (induction a arbitrary: b) (auto simp: xor_bytes_def neq_Nil_conv Suc_le_length_iff xor.assoc)

lemma length_xor_bytes [simp]: "length (xor_bytes a b) = min (length a) (length b)"
  by (simp add: xor_bytes_def)

lemma length_ctr_crypt [simp]: "length (ctr_crypt k c bs) = length bs"
proof (induction k c bs rule: ctr_crypt.induct)
  case (1 k c bs)
  then show ?case
    by (subst ctr_crypt.simps) auto
qed

lemma ctr_crypt_Nil [simp]: "ctr_crypt k c [] = []"
  by (simp add: ctr_crypt.simps)

lemma ctr_crypt_short:
  "bs \<noteq> [] \<Longrightarrow> length bs \<le> 16 \<Longrightarrow> ctr_crypt k c bs = xor_bytes bs (block_bytes (aes_encrypt k c))"
  by (subst ctr_crypt.simps) simp

lemma ctr_crypt_block:
  "length b = 16 \<Longrightarrow>
   ctr_crypt k c (b @ bs) = xor_bytes b (block_bytes (aes_encrypt k c)) @ ctr_crypt k (inc32 c) bs"
  by (subst ctr_crypt.simps) auto

lemma ctr_crypt_involutive: "ctr_crypt k c (ctr_crypt k c bs) = bs"
proof (induction k c bs rule: ctr_crypt.induct)
  case (1 k c bs)
  let ?ks = "block_bytes (aes_encrypt k c)"
  consider "bs = []" | "bs \<noteq> []" "length bs \<le> 16" | "16 < length bs"
    by linarith
  then show ?case
  proof cases
    case 1
    then show ?thesis by simp
  next
    case 2
    then have len: "length (xor_bytes bs ?ks) = length bs"
      by simp
    with 2 have "xor_bytes bs ?ks \<noteq> []"
      by (metis length_0_conv)
    with 2 len show ?thesis
      by (simp add: ctr_crypt_short xor_bytes_twice)
  next
    case 3
    then have "bs \<noteq> []"
      by auto
    then have IH: "ctr_crypt k (inc32 c) (ctr_crypt k (inc32 c) (drop 16 bs)) = drop 16 bs"
      by (rule "1.IH")
    have split: "bs = take 16 bs @ drop 16 bs" and len: "length (take 16 bs) = 16"
      using 3 by simp_all
    have "ctr_crypt k c bs = xor_bytes (take 16 bs) ?ks @ ctr_crypt k (inc32 c) (drop 16 bs)"
      by (subst split, subst ctr_crypt_block [OF len]) (rule refl)
    moreover have "length (xor_bytes (take 16 bs) ?ks) = 16"
      using len by simp
    ultimately show ?thesis
      using IH len by (simp add: ctr_crypt_block xor_bytes_twice)
  qed
qed

lemma length_gcm_tag [simp]: "length (gcm_tag k n ct) = tagSize"
  by (simp add: gcm_tag_def tagSize_def)

lemma gcm_open_seal [simp]: "gcm_open k n (gcm_seal k n pt) = Some pt"
  by (simp add: gcm_open_def gcm_seal_def Let_def ctr_crypt_involutive)

lemma length_gcm_seal [simp]: "length (gcm_seal k n pt) = length pt + tagSize"
  by (simp add: gcm_seal_def Let_def)

text \<open>What the random source yields: a nonce of the right length, or nothing on its error.\<close>

definition nonce_ok :: "bytes option \<Rightarrow> bool" where
  "nonce_ok rnd \<longleftrightarrow> (case rnd of None \<Rightarrow> True | Some n \<Rightarrow> length n = nonceSize)"

lemma Decrypt_Encrypt: "nonce_ok rnd \<Longrightarrow> Encrypt rnd data key = Inr c \<Longrightarrow> Decrypt c key = Inr data"
  by (auto simp: nonce_ok_def Encrypt_def Decrypt_def nonceSize_def split: option.splits)

text \<open>C11: what \<^verbatim>\<open>Encrypt\<close> returns decrypts, under the same key, to the same bytes, for any
  twelve-byte nonce; it is 28 bytes longer than the plaintext.\<close>
theorem Encrypt_Decrypt_roundtrip:
  assumes "length nonce = nonceSize"
  shows "\<exists>c. Encrypt (Some nonce) data key = Inr c \<and> Decrypt c key = Inr data
             \<and> length c = length data + 28"
  using assms by (simp add: Encrypt_def Decrypt_def nonceSize_def tagSize_def)

theorem Encrypt_Decrypt_roundtrip_witness:
  "\<exists>c. Encrypt (Some (replicate 12 0)) [1, 2, 3] zero_key = Inr c \<and> Decrypt c zero_key = Inr [1, 2, 3]"
  using Encrypt_Decrypt_roundtrip [of "replicate 12 0" "[1, 2, 3]" zero_key] by (auto simp: nonceSize_def)

text \<open>Anything shorter than a nonce and a tag is refused.\<close>

lemma Decrypt_short: "length c < nonceSize + tagSize \<Longrightarrow> Decrypt c key = Inl ErrDecrypt"
  by (cases "length c < nonceSize") (auto simp: Decrypt_def gcm_open_def nonceSize_def tagSize_def)

text \<open>C38: changing the authentication tag of a ciphertext in any way makes \<^verbatim>\<open>Decrypt\<close> fail.\<close>
theorem Decrypt_rejects_changed_tag:
  assumes "length nonce = nonceSize" "Encrypt (Some nonce) data key = Inr (nonce @ ct @ tag)"
    and "length tag = tagSize" "length tag' = tagSize" "tag' \<noteq> tag"
  shows "Decrypt (nonce @ ct @ tag') key = Inl ErrDecrypt"
proof -
  have "gcm_seal key nonce data = ct @ tag"
    using assms(2) by (simp add: Encrypt_def)
  then have "tag = gcm_tag key nonce ct"
    using assms(3) by (auto simp: gcm_seal_def Let_def tagSize_def)
  then show ?thesis
    using assms(1,4,5) by (simp add: Decrypt_def gcm_open_def nonceSize_def tagSize_def)
qed

theorem Decrypt_rejects_changed_tag_witness:
  "\<exists>ct tag. Encrypt (Some (replicate 12 0)) [7] zero_key = Inr (replicate 12 0 @ ct @ tag) \<and>
     Decrypt (replicate 12 0 @ ct @ map (\<lambda>b. b + 1) tag) zero_key = Inl ErrDecrypt"
proof -
  let ?n = "replicate 12 0 :: bytes"
  define ct where "ct = ctr_crypt zero_key (inc32 (gcm_j0 ?n)) [7]"
  define tag where "tag = gcm_tag zero_key ?n ct"
  have e: "Encrypt (Some ?n) [7] zero_key = Inr (?n @ ct @ tag)"
    by (simp add: Encrypt_def gcm_seal_def Let_def ct_def tag_def)
  have "length tag = 16"
    by (simp add: tag_def tagSize_def)
  then have "hd tag \<noteq> hd (map (\<lambda>b. b + 1) tag)"
    by (cases tag) auto
  then have ne: "map (\<lambda>b. b + 1) tag \<noteq> tag"
    by metis
  have "Decrypt (?n @ ct @ map (\<lambda>b. b + 1) tag) zero_key = Inl ErrDecrypt"
    by (rule Decrypt_rejects_changed_tag [OF _ e _ _ ne]) (simp_all add: nonceSize_def tag_def)
  with e show ?thesis
    by blast
qed

end
