(* ===== verification/Crc.thy ===== *)
theory Crc
  imports Prelude
begin

text \<open>
  The checksum of a log record, \<^verbatim>\<open>crc32.ChecksumIEEE\<close> of the standard library, computed bit by bit
  with the reflected IEEE polynomial, and what it detects: any change confined to four consecutive
  bytes.
\<close>

unbundle bit_operations_syntax

section \<open>CRC-32 (hash/crc32, IEEE polynomial)\<close>

definition crc_poly :: "32 word" where
  "crc_poly = 0xEDB88320"

definition crc_bit :: "32 word \<Rightarrow> 32 word" where
  "crc_bit c = (if bit c 0 then drop_bit 1 c XOR crc_poly else drop_bit 1 c)"

definition crc_byte :: "32 word \<Rightarrow> byte \<Rightarrow> 32 word" where
  "crc_byte c b = (crc_bit ^^ 8) (c XOR ucast b)"

definition crc32 :: "bytes \<Rightarrow> 32 word" where
  "crc32 bs = foldl crc_byte 0xFFFFFFFF bs XOR 0xFFFFFFFF"

section \<open>What the checksum detects\<close>

lemma bit_crc_poly_31: "bit crc_poly 31"
  unfolding crc_poly_def by code_simp

lemma bit31_crc_bit: "bit (crc_bit c) 31 = bit c 0"
  using bit_imp_le_length [of c 32]
  by (auto simp: crc_bit_def bit_xor_iff bit_drop_bit_eq bit_crc_poly_31)

lemma crc_bit_inj: "crc_bit a = crc_bit b \<Longrightarrow> a = b"
proof -
  assume eq: "crc_bit a = crc_bit b"
  then have b0: "bit a 0 = bit b 0"
    by (metis bit31_crc_bit)
  have "drop_bit 1 a = drop_bit 1 b"
  proof (cases "bit a 0")
    case True
    then have "drop_bit 1 a XOR crc_poly = drop_bit 1 b XOR crc_poly"
      using eq b0 by (simp add: crc_bit_def)
    then have "(drop_bit 1 a XOR crc_poly) XOR crc_poly = (drop_bit 1 b XOR crc_poly) XOR crc_poly"
      by simp
    then show ?thesis
      by (simp only: xor.assoc xor_self_eq xor.right_neutral)
  next
    case False
    then show ?thesis
      using eq b0 by (simp add: crc_bit_def)
  qed
  then have rest: "bit a (Suc n) = bit b (Suc n)" for n
    by (metis bit_drop_bit_eq comp_apply plus_1_eq_Suc)
  show ?thesis
  proof (rule bit_word_eqI)
    fix n
    show "bit a n = bit b n"
      by (cases n) (simp_all only: b0 rest)
  qed
qed

lemma crc_pow_inj: "(crc_bit ^^ n) a = (crc_bit ^^ n) b \<Longrightarrow> a = b"
  by (induction n arbitrary: a b) (auto dest: crc_bit_inj)

text \<open>Bits above the ones that are shifted out pass through the feedback unchanged.\<close>

lemma crc_bit_high:
  assumes "\<And>n. bit y n \<Longrightarrow> n + Suc k < 32"
  shows "crc_bit (x XOR push_bit (Suc k) y) = crc_bit x XOR push_bit k y"
proof -
  have shift: "drop_bit 1 (x XOR push_bit (Suc k) y) = drop_bit 1 x XOR push_bit k y"
  proof (rule bit_word_eqI)
    fix n assume "n < LENGTH(32)"
    then show "bit (drop_bit 1 (x XOR push_bit (Suc k) y)) n = bit (drop_bit 1 x XOR push_bit k y) n"
      using assms [of "n - k"]
      by (auto simp: bit_xor_iff bit_drop_bit_eq bit_push_bit_iff simp del: push_bit_Suc)
  qed
  have low: "bit (x XOR push_bit (Suc k) y) 0 = bit x 0"
    by (simp add: bit_xor_iff bit_push_bit_iff del: push_bit_Suc)
  show ?thesis
    unfolding crc_bit_def low shift by (simp only: ac_simps split: if_split) simp
qed

lemma crc_pow_high:
  assumes "\<And>n. bit y n \<Longrightarrow> n + k < 32"
  shows "(crc_bit ^^ k) (x XOR push_bit k y) = (crc_bit ^^ k) x XOR y"
  using assms
proof (induction k arbitrary: x)
  case 0
  then show ?case by simp
next
  case (Suc k)
  have "(crc_bit ^^ Suc k) (x XOR push_bit (Suc k) y) = (crc_bit ^^ k) (crc_bit x XOR push_bit k y)"
    using crc_bit_high [of y k x] Suc.prems by (simp only: funpow_Suc_right comp_apply)
  also have "\<dots> = (crc_bit ^^ k) (crc_bit x) XOR y"
    using Suc.prems by (intro Suc.IH) fastforce
  finally show ?case
    by (simp only: funpow_Suc_right comp_apply)
qed

fun le_word :: "bytes \<Rightarrow> 32 word" where
  "le_word [] = 0"
| "le_word (b # bs) = ucast b XOR push_bit 8 (le_word bs)"

lemma bit_le_word:
  "n < 32 \<Longrightarrow> bit (le_word bs) n \<longleftrightarrow> n div 8 < length bs \<and> bit (bs ! (n div 8)) (n mod 8)"
proof (induction bs arbitrary: n)
  case Nil
  then show ?case by simp
next
  case (Cons b bs)
  show ?case
  proof (cases "n < 8")
    case True
    then show ?thesis
      using Cons.prems by (simp add: bit_xor_iff bit_push_bit_iff bit_ucast_iff)
  next
    case False
    then have "n div 8 = Suc ((n - 8) div 8)" "n mod 8 = (n - 8) mod 8"
      by (simp_all add: le_div_geq le_mod_geq)
    moreover have "\<not> bit (ucast b :: 32 word) n"
      using False by (auto simp: bit_ucast_iff dest: bit_imp_le_length)
    ultimately show ?thesis
      using False Cons.prems Cons.IH [of "n - 8"]
      by (simp add: bit_xor_iff bit_push_bit_iff)
  qed
qed

lemma le_word_bound: "bit (le_word bs) n \<Longrightarrow> n < 32 \<and> n < 8 * length bs"
  using bit_imp_le_length [of "le_word bs" n] bit_le_word [of n bs] by auto

lemma crc_pow_add: "(crc_bit ^^ m) ((crc_bit ^^ n) z) = (crc_bit ^^ (m + n)) z"
  by (simp only: funpow_add comp_apply)

lemma foldl_crc_byte:
  "length bs \<le> 4 \<Longrightarrow> foldl crc_byte c bs = (crc_bit ^^ (8 * length bs)) (c XOR le_word bs)"
proof (induction bs arbitrary: c)
  case Nil
  then show ?case by simp
next
  case (Cons b bs)
  have hi: "n + 8 < 32" if "bit (le_word bs) n" for n
    using le_word_bound [OF that] Cons.prems by simp
  have short: "length bs \<le> 4" and len: "8 * length bs + 8 = 8 * length (b # bs)"
    using Cons.prems by simp_all
  have "foldl crc_byte c (b # bs) = (crc_bit ^^ (8 * length bs)) ((crc_bit ^^ 8) (c XOR ucast b) XOR le_word bs)"
    by (simp only: foldl_Cons crc_byte_def [of c b] Cons.IH [OF short])
  also have "(crc_bit ^^ 8) (c XOR ucast b) XOR le_word bs =
      (crc_bit ^^ 8) ((c XOR ucast b) XOR push_bit 8 (le_word bs))"
    by (rule crc_pow_high [symmetric]) (rule hi)
  also have "(c XOR ucast b) XOR push_bit 8 (le_word bs) = c XOR le_word (b # bs)"
    by (simp only: le_word.simps xor.assoc)
  finally show ?case
    by (simp only: crc_pow_add len)
qed

lemma le_word_inject:
  assumes "le_word bs = le_word cs" "length bs = length cs" "length bs \<le> 4"
  shows "bs = cs"
proof (rule nth_equalityI [OF assms(2)])
  fix i assume i: "i < length bs"
  show "bs ! i = cs ! i"
  proof (rule bit_word_eqI)
    fix j assume "j < LENGTH(8)"
    then have "8 * i + j < 32" "(8 * i + j) div 8 = i" "(8 * i + j) mod 8 = j"
      using i assms(3) by simp_all
    then show "bit (bs ! i) j = bit (cs ! i) j"
      using assms(1,2) i bit_le_word [of "8 * i + j" bs] bit_le_word [of "8 * i + j" cs] by simp
  qed
qed

lemma xor_left_cancel: "(c :: 32 word) XOR a = c XOR b \<Longrightarrow> a = b"
  by (metis xor.assoc xor.left_neutral xor_self_eq)

lemma crc_byte_state_inj: "crc_byte c b = crc_byte d b \<Longrightarrow> c = d"
  using crc_pow_inj [of 8 "c XOR ucast b" "d XOR ucast b"] xor_left_cancel [of "ucast b" c d]
  by (simp add: crc_byte_def xor.commute)

lemma foldl_crc_state_inj: "foldl crc_byte c bs = foldl crc_byte d bs \<Longrightarrow> c = d"
  by (induction bs arbitrary: c d) (auto dest: crc_byte_state_inj)

lemma crc32_burst:
  assumes "length bs = length cs" "length bs \<le> 4" "crc32 (xs @ bs @ ys) = crc32 (xs @ cs @ ys)"
  shows "bs = cs"
proof -
  let ?c = "foldl crc_byte 0xFFFFFFFF xs"
  have "foldl crc_byte (foldl crc_byte ?c bs) ys = foldl crc_byte (foldl crc_byte ?c cs) ys"
    using assms(3) xor_left_cancel [of "0xFFFFFFFF"]
    by (simp add: crc32_def xor.commute [of _ "0xFFFFFFFF"])
  then have "foldl crc_byte ?c bs = foldl crc_byte ?c cs"
    by (rule foldl_crc_state_inj)
  then have "(crc_bit ^^ (8 * length bs)) (?c XOR le_word bs) = (crc_bit ^^ (8 * length bs)) (?c XOR le_word cs)"
    using assms(1,2) by (simp add: foldl_crc_byte)
  then have "le_word bs = le_word cs"
    using crc_pow_inj xor_left_cancel by blast
  then show ?thesis
    using assms(1,2) by (rule le_word_inject)
qed


end
