(* ===== verification/WalCodec.thy ===== *)
theory WalCodec
  imports Encoding Crypto Crc
begin

text \<open>
  The on-disk format of the write-ahead log: \<^verbatim>\<open>writeEntry\<close> builds one record, \<^verbatim>\<open>readEntry\<close> and
  \<^verbatim>\<open>ReadAll\<close> of \<^verbatim>\<open>modules/wal/wal.go\<close> read a file back. A record is a header of eight bytes (length
  and CRC-32 of the payload, little endian) and the payload: the entry as a protobuf message,
  encrypted when the log has a key. \<^verbatim>\<open>google.golang.org/protobuf\<close> is a third-party package: its
  \<^verbatim>\<open>Marshal\<close> and \<^verbatim>\<open>Unmarshal\<close> are the fields of \<open>pblib\<close>, and what the log relies on is
  \<open>proto_faithful\<close>.
\<close>

section \<open>Entries\<close>

definition OpCreate :: byte where "OpCreate = 1"
definition OpWrite :: byte where "OpWrite = 2"
definition OpDelete :: byte where "OpDelete = 3"
definition OpCommit :: byte where "OpCommit = 4"
definition OpBatch :: byte where "OpBatch = 5"

lemmas op_defs = OpCreate_def OpWrite_def OpDelete_def OpCommit_def OpBatch_def

definition maxEntrySize :: nat where
  "maxEntrySize = 10 * 1024 * 1024"

definition headerSize :: nat where
  "headerSize = 8"

record wal_entry =
  e_op :: byte
  e_table :: string
  e_key :: string
  e_value :: goval
  e_txid :: string
  e_time :: "64 word"

record pb_entry =
  pb_op :: "32 word"
  pb_table :: string
  pb_key :: string
  pb_value :: bytes
  pb_txid :: string
  pb_time :: "64 word"

record pblib =
  pb_marshal :: "pb_entry \<Rightarrow> bytes option"
  pb_unmarshal :: "bytes \<Rightarrow> pb_entry option"

text \<open>\<^verbatim>\<open>proto.Unmarshal\<close> recovers every message that \<^verbatim>\<open>proto.Marshal\<close> could encode.\<close>

definition proto_faithful :: "pblib \<Rightarrow> bool" where
  "proto_faithful P \<longleftrightarrow> (\<forall>pb m. pb_marshal P pb = Some m \<longrightarrow> pb_unmarshal P m = Some pb)"

section \<open>Writing an entry\<close>

definition to_pb :: "golib \<Rightarrow> wal_entry \<Rightarrow> pb_entry res" where
  "to_pb L e =
     (let pb = \<lparr>pb_op = ucast (e_op e), pb_table = e_table e, pb_key = e_key e, pb_value = [],
                pb_txid = e_txid e, pb_time = e_time e\<rparr>
      in if e_value e \<noteq> VNil
         then (case SerializeValue L (e_value e) of
                 Inl err \<Rightarrow> Inl err | Inr b \<Rightarrow> Inr (pb\<lparr>pb_value := b\<rparr>))
         else Inr pb)"

definition entry_payload :: "golib \<Rightarrow> pblib \<Rightarrow> key \<Rightarrow> bytes option \<Rightarrow> wal_entry \<Rightarrow> bytes res" where
  "entry_payload L P key rnd e =
     (case to_pb L e of Inl err \<Rightarrow> Inl err
      | Inr pb \<Rightarrow>
          (case pb_marshal P pb of None \<Rightarrow> Inl ErrProto
           | Some data \<Rightarrow> if IsZero key then Inr data else Encrypt rnd data key))"

definition frame :: "bytes \<Rightarrow> bytes" where
  "frame data = put_u32 (of_nat (length data)) @ put_u32 (crc32 data) @ data"

text \<open>The bytes \<^verbatim>\<open>writeEntry\<close> hands to the buffered writer.\<close>

definition entry_frame :: "golib \<Rightarrow> pblib \<Rightarrow> key \<Rightarrow> bytes option \<Rightarrow> wal_entry \<Rightarrow> bytes res" where
  "entry_frame L P key rnd e =
     (case entry_payload L P key rnd e of Inl err \<Rightarrow> Inl err
      | Inr data \<Rightarrow>
          if length data > maxEntrySize then Inl (ErrEntryTooLarge (length data))
          else Inr (frame data))"

section \<open>Reading entries\<close>

text \<open>\<^verbatim>\<open>io.ReadFull\<close> on a reader that holds the bytes \<open>bs\<close>: the result and what is left.\<close>

definition ReadFull :: "nat \<Rightarrow> bytes \<Rightarrow> bytes res \<times> bytes" where
  "ReadFull n bs =
     (if n \<le> length bs then (Inr (take n bs), drop n bs)
      else if bs = [] then (Inl ErrEOF, []) else (Inl ErrUnexpectedEOF, []))"

definition from_pb :: "golib \<Rightarrow> pb_entry \<Rightarrow> wal_entry res" where
  "from_pb L pb =
     (let e = \<lparr>e_op = ucast (pb_op pb), e_table = pb_table pb, e_key = pb_key pb, e_value = VNil,
               e_txid = pb_txid pb, e_time = pb_time pb\<rparr>
      in if pb_value pb \<noteq> []
         then (case DeserializeValue L (pb_value pb) of
                 Inl err \<Rightarrow> Inl err | Inr v \<Rightarrow> Inr (e\<lparr>e_value := v\<rparr>))
         else Inr e)"

definition decode_payload :: "golib \<Rightarrow> pblib \<Rightarrow> key \<Rightarrow> bytes \<Rightarrow> wal_entry res" where
  "decode_payload L P key data =
     (case (if IsZero key then Inr data else Decrypt data key) of Inl _ \<Rightarrow> Inl ErrDecrypt
      | Inr d \<Rightarrow> (case pb_unmarshal P d of None \<Rightarrow> Inl ErrProto | Some pb \<Rightarrow> from_pb L pb))"

definition readEntry :: "golib \<Rightarrow> pblib \<Rightarrow> key \<Rightarrow> bytes \<Rightarrow> wal_entry res \<times> bytes" where
  "readEntry L P key bs =
     (case ReadFull headerSize bs of
        (Inl err, rest) \<Rightarrow> (Inl err, rest)
      | (Inr header, rest) \<Rightarrow>
          (let len = unat (get_u32 (take 4 header)); expected = get_u32 (take 4 (drop 4 header)) in
           if len > maxEntrySize then (Inl (ErrEntryTooLarge len), rest)
           else (case ReadFull len rest of
                   (Inl err, rest') \<Rightarrow> (Inl err, rest')
                 | (Inr data, rest') \<Rightarrow>
                     if crc32 data \<noteq> expected then (Inl ErrChecksum, rest')
                     else (decode_payload L P key data, rest'))))"

lemma ReadFull_shorter: "ReadFull n bs = (r, rest) \<Longrightarrow> length rest \<le> length bs"
  by (auto simp: ReadFull_def split: if_splits)

lemma readEntry_consumes:
  assumes "readEntry L P key bs = (r, rest)" "r \<noteq> Inl ErrEOF"
  shows "length rest < length bs"
  using assms
  by (auto simp: readEntry_def headerSize_def Let_def ReadFull_def split: if_splits prod.splits)

text \<open>
  The loop of \<^verbatim>\<open>ReadAll\<close>: only end of file leaves it; every other error is logged and the loop goes
  on behind the bytes already consumed. It ends because every round consumes at least a byte.
\<close>

function ReadAll :: "golib \<Rightarrow> pblib \<Rightarrow> key \<Rightarrow> bytes \<Rightarrow> wal_entry list" where
  "ReadAll L P key bs =
     (case readEntry L P key bs of (r, rest) \<Rightarrow>
        if r = Inl ErrEOF then []
        else (case r of Inl _ \<Rightarrow> ReadAll L P key rest | Inr e \<Rightarrow> e # ReadAll L P key rest))"
  by pat_completeness auto
termination
  by (relation "measure (\<lambda>(L, P, key, bs). length bs)") (auto dest: readEntry_consumes [OF sym])

declare ReadAll.simps [simp del]

section \<open>Frames\<close>

lemma ReadFull_append: "n = length a \<Longrightarrow> ReadFull n (a @ rest) = (Inr a, rest)"
  by (simp add: ReadFull_def)

lemma frame_length: "length data \<le> maxEntrySize \<Longrightarrow> unat (of_nat (length data) :: 32 word) = length data"
  by (simp add: unat_of_nat maxEntrySize_def)

text \<open>A header followed by as many bytes as it announces.\<close>

lemma readEntry_header:
  assumes "length data \<le> maxEntrySize"
  shows "readEntry L P key (put_u32 (of_nat (length data)) @ put_u32 c @ data @ rest) =
     (if crc32 data \<noteq> c then Inl ErrChecksum else decode_payload L P key data, rest)"
proof -
  let ?h = "put_u32 (of_nat (length data)) @ put_u32 c"
  have "ReadFull headerSize (?h @ data @ rest) = (Inr ?h, data @ rest)"
    by (rule ReadFull_append) (simp add: headerSize_def)
  moreover have "ReadFull (length data) (data @ rest) = (Inr data, rest)"
    by (rule ReadFull_append) simp
  ultimately show ?thesis
    using assms by (simp add: readEntry_def Let_def frame_length)
qed

lemma readEntry_frame:
  "length data \<le> maxEntrySize \<Longrightarrow>
   readEntry L P key (frame data @ rest) = (decode_payload L P key data, rest)"
  using readEntry_header [of data L P key "crc32 data" rest] by (simp add: frame_def)

lemma readEntry_Nil [simp]: "readEntry L P key [] = (Inl ErrEOF, [])"
  by (simp add: readEntry_def ReadFull_def headerSize_def)

lemma ReadAll_Nil [simp]: "ReadAll L P key [] = []"
  by (simp add: ReadAll.simps)

lemma SerializeValue_nonempty: "SerializeValue L v = Inr b \<Longrightarrow> b \<noteq> []"
  by (cases v) (auto split: option.splits)

lemma SerializeValue_err: "SerializeValue L v = Inl e \<Longrightarrow> e = ErrSerialize"
  by (cases v) (auto split: option.splits)

lemma DeserializeValue_err: "DeserializeValue L b = Inl e \<Longrightarrow> e = ErrDeserialize"
  by (auto simp: DeserializeValue_def split: list.splits if_splits option.splits)

lemma decode_payload_not_eof: "decode_payload L P key data \<noteq> Inl ErrEOF"
  by (auto simp: decode_payload_def from_pb_def Let_def
      split: sum.splits option.splits if_splits dest: DeserializeValue_err)

lemma ReadAll_frame:
  assumes "length data \<le> maxEntrySize"
  shows "ReadAll L P key (frame data @ rest) =
     (case decode_payload L P key data of Inl _ \<Rightarrow> [] | Inr e \<Rightarrow> [e]) @ ReadAll L P key rest"
  using assms decode_payload_not_eof [of L P key data]
  by (subst ReadAll.simps) (simp add: readEntry_frame split: sum.split)

lemma ReadAll_bad_checksum:
  assumes "length data \<le> maxEntrySize" "crc32 data \<noteq> c"
  shows "ReadAll L P key (put_u32 (of_nat (length data)) @ put_u32 c @ data @ rest) = ReadAll L P key rest"
  using assms by (subst ReadAll.simps) (simp add: readEntry_header)

text \<open>A proper prefix of a frame, which is what a crash in the middle of a write leaves.\<close>

lemma ReadFull_prefix: "length t < n \<Longrightarrow> ReadFull n t = (Inl (if t = [] then ErrEOF else ErrUnexpectedEOF), [])"
  by (simp add: ReadFull_def)

lemma ReadAll_torn:
  assumes "length data \<le> maxEntrySize" "n < length (frame data)"
  shows "ReadAll L P key (take n (frame data)) = []"
proof (cases "n < headerSize")
  case True
  then have "length (take n (frame data)) < headerSize"
    by simp
  then show ?thesis
    by (subst ReadAll.simps) (simp add: readEntry_def ReadFull_prefix del: length_take)
next
  case False
  let ?h = "put_u32 (of_nat (length data)) @ put_u32 (crc32 data)" and ?t = "take (n - headerSize) data"
  have h: "length ?h = headerSize"
    by (simp add: headerSize_def)
  have "frame data = ?h @ data"
    by (simp add: frame_def)
  then have split: "take n (frame data) = ?h @ ?t"
    using False h by (simp add: headerSize_def)
  have short: "length ?t < length data"
    using assms(2) False by (simp add: frame_def headerSize_def)
  have "ReadFull headerSize (?h @ ?t) = (Inr ?h, ?t)"
    by (rule ReadFull_append) (simp only: h)
  then have "readEntry L P key (?h @ ?t) = (Inl (if ?t = [] then ErrEOF else ErrUnexpectedEOF), [])"
    using assms(1) short by (simp add: readEntry_def Let_def frame_length ReadFull_prefix del: length_take)
  then show ?thesis
    unfolding split by (subst ReadAll.simps) simp
qed

section \<open>An entry through the log\<close>

text \<open>The value that comes back for a logged value, and the entry that comes back.\<close>

definition wal_value :: "golib \<Rightarrow> goval \<Rightarrow> goval res" where
  "wal_value L v =
     (if v = VNil then Inr VNil
      else (case SerializeValue L v of Inl err \<Rightarrow> Inl err | Inr b \<Rightarrow> DeserializeValue L b))"

definition recovered :: "golib \<Rightarrow> wal_entry \<Rightarrow> wal_entry res" where
  "recovered L e =
     (case wal_value L (e_value e) of Inl err \<Rightarrow> Inl err | Inr v \<Rightarrow> Inr (e\<lparr>e_value := v\<rparr>))"

lemma wal_value_scalar: "wire_scalar v \<Longrightarrow> wal_value L v = Inr (wire_norm v)"
  using serialize_wire [of v L] by (auto simp: wal_value_def)

lemma ucast_op [simp]: "ucast (ucast op :: 32 word) = (op :: byte)"
  by (rule bit_word_eqI) (simp add: bit_ucast_iff)

lemma from_to_pb: "to_pb L e = Inr pb \<Longrightarrow> from_pb L pb = recovered L e"
  by (auto simp: to_pb_def from_pb_def recovered_def wal_value_def Let_def
      split: if_splits sum.splits dest: SerializeValue_nonempty)

lemma decode_entry_payload:
  assumes "entry_payload L P key rnd e = Inr data" "proto_faithful P" "nonce_ok rnd"
  shows "decode_payload L P key data = recovered L e"
proof -
  from assms(1) obtain pb m where pb: "to_pb L e = Inr pb" and m: "pb_marshal P pb = Some m"
    and data: "(if IsZero key then Inr m else Encrypt rnd m key) = Inr data"
    by (auto simp: entry_payload_def split: sum.splits option.splits if_splits)
  have "(if IsZero key then Inr data else Decrypt data key) = Inr m"
    using data assms(3)
    by (cases rnd) (auto simp: Encrypt_def Decrypt_def nonce_ok_def nonceSize_def split: if_splits)
  moreover have "pb_unmarshal P m = Some pb"
    using assms(2) m by (simp add: proto_faithful_def)
  ultimately show ?thesis
    using from_to_pb [OF pb] by (simp add: decode_payload_def)
qed

definition recovered_list :: "golib \<Rightarrow> wal_entry \<Rightarrow> wal_entry list" where
  "recovered_list L e = (case recovered L e of Inl _ \<Rightarrow> [] | Inr e' \<Rightarrow> [e'])"

lemma entry_frame_payload:
  assumes "entry_frame L P key rnd e = Inr f"
  obtains data where "entry_payload L P key rnd e = Inr data" "length data \<le> maxEntrySize" "f = frame data"
  using assms by (auto simp: entry_frame_def split: sum.splits if_splits)

text \<open>
  The contract between the log and its record format: an encoded entry is not empty, reads back as
  \<open>dec e\<close> whatever follows, and a torn record reads as nothing.
\<close>

locale record_format =
  fixes faithful :: bool
    and enc :: "'n \<Rightarrow> 'e \<Rightarrow> bytes res"
    and good :: "'n \<Rightarrow> bool"
    and readall :: "bytes \<Rightarrow> 'e list"
    and dec :: "'e \<Rightarrow> 'e list"
  assumes readall_Nil: "readall [] = []"
    and readall_enc: "faithful \<Longrightarrow> good n \<Longrightarrow> enc n e = Inr f \<Longrightarrow> readall (f @ rest) = dec e @ readall rest"
    and readall_torn: "enc n e = Inr f \<Longrightarrow> k < length f \<Longrightarrow> readall (take k f) = []"
begin

definition image_of :: "('n \<times> 'e) list \<Rightarrow> bytes list \<Rightarrow> bool" where
  "image_of log fs \<longleftrightarrow> list_all2 (\<lambda>(n, e) f. good n \<and> enc n e = Inr f) log fs"

lemma readall_append:
  assumes "faithful" "image_of log fs"
  shows "readall (concat fs @ rest) = concat (map (\<lambda>(n, e). dec e) log) @ readall rest"
  using assms(2) unfolding image_of_def
  by (induction log fs rule: list_all2_induct) (auto simp: readall_enc [OF assms(1)])

lemma readall_image:
  "faithful \<Longrightarrow> image_of log fs \<Longrightarrow> readall (concat fs) = concat (map (\<lambda>(n, e). dec e) log)"
  using readall_append [of log fs "[]"] by (simp add: readall_Nil)

text \<open>A crash keeps a prefix of the file: exactly the entries whose record is complete are read.\<close>

lemma readall_prefix:
  assumes "faithful" "image_of log fs"
  shows "\<exists>j \<le> length log. readall (take k (concat fs)) = concat (map (\<lambda>(n, e). dec e) (take j log))
    \<and> length (concat (take j fs)) \<le> k
    \<and> (j < length log \<longrightarrow> k < length (concat (take (Suc j) fs)))"
  using assms(2) unfolding image_of_def
proof (induction log fs arbitrary: k rule: list_all2_induct)
  case Nil
  then show ?case
    by (simp add: readall_Nil)
next
  case (Cons x log f fs)
  obtain n e where x: "x = (n, e)"
    by (cases x)
  with Cons.hyps(1) have g: "good n" "enc n e = Inr f"
    by simp_all
  show ?case
  proof (cases "k < length f")
    case True
    then have "readall (take k (concat (f # fs))) = []"
      using readall_torn [OF g(2)] by simp
    with True show ?thesis
      by (intro exI [of _ 0]) simp
  next
    case False
    obtain j where j: "j \<le> length log"
      "readall (take (k - length f) (concat fs)) = concat (map (\<lambda>(n, e). dec e) (take j log))"
      "length (concat (take j fs)) \<le> k - length f"
      "j < length log \<longrightarrow> k - length f < length (concat (take (Suc j) fs))"
      using Cons.IH by blast
    have "readall (take k (concat (f # fs))) = dec e @ readall (take (k - length f) (concat fs))"
      using False readall_enc [OF assms(1) g] by simp
    with j x False show ?thesis
      by (intro exI [of _ "Suc j"]) auto
  qed
qed

end

interpretation wal_format: record_format "proto_faithful P" "entry_frame L P key" nonce_ok
    "ReadAll L P key" "recovered_list L" for L P key
proof unfold_locales
  show "ReadAll L P key [] = []"
    by simp
next
  fix n e f rest
  assume "proto_faithful P" "nonce_ok n" and f: "entry_frame L P key n e = Inr f"
  from f obtain data where d: "entry_payload L P key n e = Inr data" "length data \<le> maxEntrySize" "f = frame data"
    by (rule entry_frame_payload)
  then show "ReadAll L P key (f @ rest) = recovered_list L e @ ReadAll L P key rest"
    using decode_entry_payload [OF d(1) \<open>proto_faithful P\<close> \<open>nonce_ok n\<close>]
    by (simp add: ReadAll_frame recovered_list_def)
next
  fix n e f k
  assume f: "entry_frame L P key n e = Inr f" and k: "k < length f"
  from f obtain data where "length data \<le> maxEntrySize" "f = frame data"
    by (rule entry_frame_payload)
  then show "ReadAll L P key (take k f) = []"
    using k by (simp add: ReadAll_torn)
qed

section \<open>Properties of the log format\<close>

text \<open>A protobuf library that knows the messages of a list, for closed examples.\<close>

definition sample_pb :: "pb_entry list \<Rightarrow> pblib" where
  "sample_pb pbs =
     \<lparr>pb_marshal = (\<lambda>pb. if pb \<in> set pbs then Some (replicate (length (takeWhile (\<lambda>x. x \<noteq> pb) pbs)) 7) else None),
      pb_unmarshal = (\<lambda>b. if length b < length pbs then Some (pbs ! length b) else None)\<rparr>"

lemma faithful_sample_pb [simp]: "proto_faithful (sample_pb pbs)"
proof -
  have "length (takeWhile (\<lambda>x. x \<noteq> pb) pbs) < length pbs \<and>
      pbs ! length (takeWhile (\<lambda>x. x \<noteq> pb) pbs) = pb" if "pb \<in> set pbs" for pb
    using that by (induction pbs) auto
  then show ?thesis
    by (auto simp: proto_faithful_def sample_pb_def)
qed

definition sample_entry :: "goval \<Rightarrow> wal_entry" where
  "sample_entry v = \<lparr>e_op = OpWrite, e_table = ''t'', e_key = ''k'', e_value = v, e_txid = [], e_time = 1\<rparr>"

definition sample_message :: "goval \<Rightarrow> pb_entry" where
  "sample_message v =
     \<lparr>pb_op = 2, pb_table = ''t'', pb_key = ''k'',
      pb_value = (case SerializeValue sample_lib v of Inl _ \<Rightarrow> [] | Inr b \<Rightarrow> b), pb_txid = [], pb_time = 1\<rparr>"

lemma sample_frame:
  "entry_frame sample_lib (sample_pb [sample_message (VInt 5)]) zero_key None (sample_entry (VInt 5)) = Inr (frame [])"
  by (simp add: entry_frame_def entry_payload_def to_pb_def sample_entry_def sample_message_def sample_pb_def
      IsZero_def op_defs Let_def)

lemma recovered_scalars:
  "\<forall>(rnd, e) \<in> set log. wire_scalar (e_value e) \<Longrightarrow>
   concat (map (\<lambda>(rnd, e). recovered_list L e) log) = map (\<lambda>(rnd, e). e\<lparr>e_value := wire_norm (e_value e)\<rparr>) log"
  by (induction log) (auto simp: recovered_list_def recovered_def wal_value_scalar)

text \<open>C12: \<^verbatim>\<open>ReadAll\<close> on the concatenated records that \<^verbatim>\<open>writeEntry\<close> produced, encrypted or not,
  returns the entries in order, with scalar values widened to 64 bits.\<close>
theorem ReadAll_roundtrip:
  assumes "proto_faithful P"
    and "list_all2 (\<lambda>(rnd, e) f. nonce_ok rnd \<and> entry_frame L P key rnd e = Inr f) log fs"
    and "\<forall>(rnd, e) \<in> set log. wire_scalar (e_value e)"
  shows "ReadAll L P key (concat fs) = map (\<lambda>(rnd, e). e\<lparr>e_value := wire_norm (e_value e)\<rparr>) log"
  using wal_format.readall_image [of P L key log fs] assms
  by (simp add: wal_format.image_of_def recovered_scalars)

theorem ReadAll_roundtrip_witness:
  "ReadAll sample_lib (sample_pb [sample_message (VInt 5)]) zero_key (frame []) = [sample_entry (VInt64 5)]"
  using ReadAll_roundtrip [of "sample_pb [sample_message (VInt 5)]" sample_lib zero_key
      "[(None, sample_entry (VInt 5))]" "[frame []]"] sample_frame
  by (simp add: nonce_ok_def sample_entry_def)

text \<open>C13: after a crash that keeps any prefix of the log file, \<^verbatim>\<open>ReadAll\<close> returns exactly the entries
  whose record lies completely within that prefix; a torn last record is never misread.\<close>
theorem ReadAll_crash_prefix:
  assumes "proto_faithful P"
    and "list_all2 (\<lambda>(rnd, e) f. nonce_ok rnd \<and> entry_frame L P key rnd e = Inr f) log fs"
  shows "\<exists>j \<le> length log.
     ReadAll L P key (take n (concat fs)) = concat (map (\<lambda>(rnd, e). recovered_list L e) (take j log))
     \<and> length (concat (take j fs)) \<le> n
     \<and> (j = length log \<or> n < length (concat (take (Suc j) fs)))"
proof -
  have "wal_format.image_of L P key log fs"
    using assms(2) by (simp add: wal_format.image_of_def)
  from wal_format.readall_prefix [OF assms(1) this, of n] show ?thesis
    by (auto simp: le_less)
qed

theorem ReadAll_crash_prefix_witness:
  "\<exists>j \<le> 1. ReadAll sample_lib (sample_pb [sample_message (VInt 5)]) zero_key (take 5 (frame [])) =
      concat (map (\<lambda>(rnd, e). recovered_list sample_lib e) (take j [(None :: bytes option, sample_entry (VInt 5))]))
      \<and> length (concat (take j [frame []])) \<le> 5"
  using ReadAll_crash_prefix [of "sample_pb [sample_message (VInt 5)]" sample_lib zero_key
      "[(None, sample_entry (VInt 5))]" "[frame []]" 5] sample_frame
  by (auto simp: nonce_ok_def)

text \<open>C37: when up to four consecutive bytes of one record's payload are damaged, the checksum detects
  it and \<^verbatim>\<open>ReadAll\<close> skips exactly that record: every entry before and after it is recovered.\<close>
theorem ReadAll_skips_damaged_record:
  assumes "proto_faithful P"
    and "list_all2 (\<lambda>(rnd, e) f. nonce_ok rnd \<and> entry_frame L P key rnd e = Inr f) log1 fs1"
    and "list_all2 (\<lambda>(rnd, e) f. nonce_ok rnd \<and> entry_frame L P key rnd e = Inr f) log2 fs2"
    and "length (xs @ bs @ ys) \<le> maxEntrySize"
    and "length cs = length bs" "length bs \<le> 4" "cs \<noteq> bs"
  shows "ReadAll L P key
       (concat fs1 @ put_u32 (of_nat (length (xs @ bs @ ys))) @ put_u32 (crc32 (xs @ bs @ ys)) @ (xs @ cs @ ys)
        @ concat fs2) =
     concat (map (\<lambda>(rnd, e). recovered_list L e) (log1 @ log2))"
proof -
  have im: "wal_format.image_of L P key log1 fs1" "wal_format.image_of L P key log2 fs2"
    using assms(2,3) by (simp_all add: wal_format.image_of_def)
  have "crc32 (xs @ cs @ ys) \<noteq> crc32 (xs @ bs @ ys)"
    using crc32_burst [of cs bs xs ys] assms(5-7) by auto
  moreover have "length (xs @ cs @ ys) = length (xs @ bs @ ys)"
    using assms(5) by simp
  ultimately have skip: "ReadAll L P key (put_u32 (of_nat (length (xs @ bs @ ys))) @
        put_u32 (crc32 (xs @ bs @ ys)) @ (xs @ cs @ ys) @ concat fs2) = ReadAll L P key (concat fs2)"
    using ReadAll_bad_checksum [of "xs @ cs @ ys" "crc32 (xs @ bs @ ys)" L P key "concat fs2"] assms(4)
    by (simp del: append_assoc)
  show ?thesis
    unfolding wal_format.readall_append [OF assms(1) im(1)] skip wal_format.readall_image [OF assms(1) im(2)]
    by simp
qed

theorem ReadAll_skips_damaged_record_witness:
  "ReadAll sample_lib (sample_pb [sample_message (VInt 5)]) zero_key
     (frame [] @ put_u32 1 @ put_u32 (crc32 [7]) @ [8] @ frame []) =
   [sample_entry (VInt64 5), sample_entry (VInt64 5)]"
proof -
  let ?log = "[(None :: bytes option, sample_entry (VInt 5))]"
  have "recovered_list sample_lib (sample_entry (VInt 5)) = [sample_entry (VInt64 5)]"
    by (simp add: recovered_list_def recovered_def wal_value_scalar sample_entry_def)
  then show ?thesis
    using ReadAll_skips_damaged_record [of "sample_pb [sample_message (VInt 5)]" sample_lib zero_key
        ?log "[frame []]" ?log "[frame []]" "[]" "[7]" "[]" "[8]"] sample_frame
    by (simp add: nonce_ok_def maxEntrySize_def)
qed

text \<open>A length field above the limit is not skipped: reading goes on right behind the header, so
  the payload of the damaged record is parsed as if it were a sequence of records.\<close>
theorem ReadAll_oversized_header:
  assumes "unat len > maxEntrySize"
  shows "ReadAll L P key (put_u32 len @ put_u32 c @ rest) = ReadAll L P key rest"
proof -
  let ?h = "put_u32 len @ put_u32 c"
  have "ReadFull headerSize (?h @ rest) = (Inr ?h, rest)"
    by (rule ReadFull_append) (simp add: headerSize_def)
  then have "readEntry L P key (?h @ rest) = (Inl (ErrEntryTooLarge (unat len)), rest)"
    using assms by (simp add: readEntry_def Let_def)
  then show ?thesis
    by (subst ReadAll.simps) simp
qed

theorem ReadAll_oversized_header_witness:
  "ReadAll sample_lib (sample_pb []) zero_key (put_u32 0x01000000 @ put_u32 0 @ [1, 2]) =
   ReadAll sample_lib (sample_pb []) zero_key [1, 2]"
  by (rule ReadAll_oversized_header) (simp add: maxEntrySize_def)

text \<open>C39: the log is reopened for appending behind whatever a crash left. When the last record is torn
  inside its payload, reading takes the missing bytes from what was appended after the restart: the
  first appended records are swallowed and reading goes on in the middle of the appended bytes.\<close>
theorem ReadAll_torn_tail_swallows:
  assumes "length data \<le> maxEntrySize" "k < length data" "length data - k \<le> length new"
    and "crc32 (take k data @ take (length data - k) new) \<noteq> crc32 data"
  shows "ReadAll L P key (take (headerSize + k) (frame data) @ new) =
     ReadAll L P key (drop (length data - k) new)"
proof -
  let ?d = "take k data @ take (length data - k) new"
  have len: "length ?d = length data"
    using assms(2,3) by simp
  have "take (headerSize + k) (frame data) =
      put_u32 (of_nat (length data)) @ put_u32 (crc32 data) @ take k data"
    by (simp add: frame_def headerSize_def)
  then have "take (headerSize + k) (frame data) @ new =
      put_u32 (of_nat (length ?d)) @ put_u32 (crc32 data) @ ?d @ drop (length data - k) new"
    unfolding len by simp
  then show ?thesis
    using ReadAll_bad_checksum [of ?d "crc32 data" L P key "drop (length data - k) new"] assms(1,4) len
    by simp
qed

theorem ReadAll_torn_tail_swallows_witness:
  "ReadAll sample_lib (sample_pb [sample_message (VInt 5)]) zero_key
     (take (headerSize + 1) (frame [1, 2, 3, 4, 5]) @ frame []) = []"
proof -
  have f: "frame [] = [0, 0, 0, 0] @ drop 4 (frame [])" and l: "length (drop 4 (frame [])) = 4"
    by (simp_all add: frame_def put_u32_def)
  have "crc32 ([1] @ [0, 0, 0, 0] @ []) \<noteq> crc32 ([1] @ [2, 3, 4, 5] @ [])"
    by (rule notI, drule crc32_burst [rotated 2]) simp_all
  then have "crc32 (take 1 [1, 2, 3, 4, 5] @ take (5 - 1) (frame [])) \<noteq> crc32 [1, 2, 3, 4, 5]"
    by (subst f) simp
  then have "ReadAll sample_lib (sample_pb [sample_message (VInt 5)]) zero_key
      (take (headerSize + 1) (frame [1, 2, 3, 4, 5]) @ frame []) =
      ReadAll sample_lib (sample_pb [sample_message (VInt 5)]) zero_key (drop 4 (frame []))"
    using ReadAll_torn_tail_swallows [of "[1, 2, 3, 4, 5]" 1 "frame []" sample_lib
        "sample_pb [sample_message (VInt 5)]" zero_key]
    by (simp add: maxEntrySize_def frame_def)
  also have "\<dots> = []"
    using l by (subst ReadAll.simps) (simp add: readEntry_def ReadFull_def headerSize_def)
  finally show ?thesis .
qed

end
