(* ===== verification/Wal.thy ===== *)
theory Wal
  imports WalCodec
begin

text \<open>
  The write-ahead log of \<^verbatim>\<open>modules/wal/wal.go\<close> and \<^verbatim>\<open>modules/wal/wal_sync.go\<close>: its channel, its
  pending batch, the buffered writer, the file and the rotated files, one definition per method
  and per round of a worker loop, and the step relation of all of them in any order.

  The methods hold \<^verbatim>\<open>closeMutex\<close> or \<^verbatim>\<open>batchMutex\<close> while they change the state, so each is one step, and
  a method that releases its lock and waits is two. \<open>w_writer\<close> is the place where \<^verbatim>\<open>batchWriter\<close> is.
  What the scheduler and the clock decide is an argument: the time, what the other goroutines do
  while \<^verbatim>\<open>Append\<close> waits for a slot, and at which file operation a rotation fails. A write fails when
  the file has been closed; a full disk is not modelled. Two fields are history that no operation
  reads: \<open>w_accepted\<close>, the entries for which \<^verbatim>\<open>Append\<close> returned nil, and \<open>w_rotated\<close>, what the file held at
  each rotation; \<open>w_backups\<close> are the rotated files that are still there.
\<close>

section \<open>State\<close>

record wal_cfg =
  wc_key :: key
  wc_BatchSize :: nat
  wc_MaxSize :: "64 word"
  wc_GroupCommit :: bool

record wal_env =
  we_lib :: golib
  we_pb :: pblib
  we_rnd :: "nat \<Rightarrow> bytes option"      \<comment> \<open>the random source: the nonce of the n-th record\<close>

text \<open>\<^verbatim>\<open>batchWriter\<close> is at its first \<^verbatim>\<open>select\<close>, at the second one, which it enters when the channel was empty,
  or it has returned: because the channel was closed and empty, or because the context was done.\<close>

datatype writer_pc = AtFirst | AtSecond | Drained | Cancelled

record wal =
  w_cfg :: wal_cfg
  w_buffer :: "wal_entry list"         \<comment> \<open>the channel\<close>
  w_pending :: "wal_entry list"        \<comment> \<open>\<^verbatim>\<open>pendingBatch\<close>\<close>
  w_out :: bytes                       \<comment> \<open>bytes in the \<^verbatim>\<open>bufio.Writer\<close>\<close>
  w_err :: bool                        \<comment> \<open>the sticky error of the \<^verbatim>\<open>bufio.Writer\<close>\<close>
  w_file :: bytes                      \<comment> \<open>the file as the kernel has it\<close>
  w_synced :: nat                      \<comment> \<open>how many of its bytes are known to be on the disk\<close>
  w_open :: bool                       \<comment> \<open>the file handle is open\<close>
  w_backups :: "(nat, bytes) gomap"    \<comment> \<open>rotated files, by the second in their names\<close>
  w_rotated :: "(nat \<times> bytes) list"    \<comment> \<open>the rotations, oldest first\<close>
  w_size :: "64 word"
  w_entries :: "64 word"
  w_flushes :: "64 word"
  w_closed :: bool
  w_bufferClosed :: bool
  w_rotating :: bool
  w_ctxDone :: bool
  w_writer :: writer_pc
  w_draws :: nat
  w_accepted :: "wal_entry list"

definition bufferCap :: nat where
  "bufferCap = 1000"

definition writerCap :: nat where
  "writerCap = 256 * 1024"

text \<open>\<^verbatim>\<open>New\<close> opens the file for appending. It computes a default batch size for the capacity of
  \<^verbatim>\<open>pendingBatch\<close> but leaves the configuration as it is.\<close>

definition wal_New :: "wal_cfg \<Rightarrow> bytes \<Rightarrow> wal" where
  "wal_New cfg content =
     \<lparr>w_cfg = cfg, w_buffer = [], w_pending = [], w_out = [], w_err = False,
      w_file = content, w_synced = length content, w_open = True, w_backups = [], w_rotated = [],
      w_size = of_nat (length content), w_entries = 0, w_flushes = 0,
      w_closed = False, w_bufferClosed = False, w_rotating = False, w_ctxDone = False,
      w_writer = AtFirst, w_draws = 0, w_accepted = []\<rparr>"

section \<open>The buffered writer and the file\<close>

definition file_write :: "bytes \<Rightarrow> wal \<Rightarrow> goerror option \<times> wal" where
  "file_write p w =
     (if w_open w then (None, w\<lparr>w_file := w_file w @ p\<rparr>) else (Some ErrIO, w\<lparr>w_err := True\<rparr>))"

definition bufio_Flush :: "wal \<Rightarrow> goerror option \<times> wal" where
  "bufio_Flush w =
     (if w_err w then (Some ErrIO, w)
      else if w_out w = [] then (None, w)
      else (case file_write (w_out w) w of
              (None, w') \<Rightarrow> (None, w'\<lparr>w_out := []\<rparr>) | (Some e, w') \<Rightarrow> (Some e, w')))"

definition bufio_Write :: "bytes \<Rightarrow> wal \<Rightarrow> goerror option \<times> wal" where
  "bufio_Write p w =
     (let avail = writerCap - length (w_out w) in
      if w_err w then (Some ErrIO, w)
      else if length p \<le> avail then (None, w\<lparr>w_out := w_out w @ p\<rparr>)
      else if w_out w = [] then file_write p w
      else (case bufio_Flush (w\<lparr>w_out := w_out w @ take avail p\<rparr>) of
              (Some e, w') \<Rightarrow> (Some e, w')
            | (None, w') \<Rightarrow>
                (let q = drop avail p in
                 if length q \<le> writerCap then (None, w'\<lparr>w_out := q\<rparr>) else file_write q w')))"

definition file_Sync :: "wal \<Rightarrow> goerror option \<times> wal" where
  "file_Sync w =
     (if w_open w then (None, w\<lparr>w_synced := length (w_file w)\<rparr>) else (Some ErrIO, w))"

section \<open>Writing\<close>

definition writeEntry :: "wal_env \<Rightarrow> wal_entry \<Rightarrow> wal \<Rightarrow> goerror option \<times> wal" where
  "writeEntry env e w =
     (case entry_frame (we_lib env) (we_pb env) (wc_key (w_cfg w)) (we_rnd env (w_draws w)) e of
        Inl err \<Rightarrow> (Some err, w\<lparr>w_draws := Suc (w_draws w)\<rparr>)
      | Inr f \<Rightarrow>
          (case bufio_Write (take headerSize f) (w\<lparr>w_draws := Suc (w_draws w)\<rparr>) of
             (Some err, w') \<Rightarrow> (Some err, w')
           | (None, w') \<Rightarrow>
               (case bufio_Write (drop headerSize f) w' of
                  (Some err, w'') \<Rightarrow> (Some err, w'')
                | (None, w'') \<Rightarrow>
                    (let size = w_size w'' + of_nat (length f) in
                     (None, w''\<lparr>w_size := size, w_entries := w_entries w'' + 1,
                                w_rotating := (w_rotating w'' \<or> wc_MaxSize (w_cfg w'') <s size)\<rparr>)))))"

fun write_batch :: "wal_env \<Rightarrow> wal_entry list \<Rightarrow> wal \<Rightarrow> goerror option \<times> wal" where
  "write_batch env [] w = (None, w)"
| "write_batch env (e # es) w =
     (case writeEntry env e w of
        (Some err, w') \<Rightarrow> (Some err, w')
      | (None, w') \<Rightarrow> write_batch env es w')"

definition flushBatch :: "wal_env \<Rightarrow> wal \<Rightarrow> goerror option \<times> wal" where
  "flushBatch env w =
     (if w_pending w = [] then (None, w)
      else (case write_batch env (w_pending w) (w\<lparr>w_pending := []\<rparr>) of
              (Some err, w') \<Rightarrow> (Some err, w')
            | (None, w') \<Rightarrow>
                (case bufio_Flush w' of
                   (Some err, w'') \<Rightarrow> (Some err, w'')
                 | (None, w'') \<Rightarrow>
                     (let w3 = w''\<lparr>w_flushes := w_flushes w'' + 1\<rparr> in
                      if wc_GroupCommit (w_cfg w3) then file_Sync w3 else (None, w3)))))"

section \<open>The workers\<close>

text \<open>The first \<^verbatim>\<open>select\<close> of \<^verbatim>\<open>batchWriter\<close>: one entry, flushed when the batch is full; the end when the
  channel is closed and empty; and when it is open and empty, the way to the second \<^verbatim>\<open>select\<close>.\<close>

definition batch_recv :: "wal_env \<Rightarrow> wal \<Rightarrow> wal" where
  "batch_recv env w =
     (if w_writer w \<noteq> AtFirst then w
      else (case w_buffer w of
        [] \<Rightarrow> if w_bufferClosed w then (snd (flushBatch env w))\<lparr>w_writer := Drained\<rparr>
              else w\<lparr>w_writer := AtSecond\<rparr>
      | e # es \<Rightarrow>
          (let w' = w\<lparr>w_buffer := es, w_pending := w_pending w @ [e]\<rparr> in
           if wc_BatchSize (w_cfg w) \<le> length (w_pending w') then snd (flushBatch env w') else w')))"

text \<open>The cases of the second \<^verbatim>\<open>select\<close>: an entry, which is only kept, or the end of the channel; the
  ticker; and the cancelled context, on which it returns whatever the channel holds by now.\<close>

definition batch_recv_idle :: "wal_env \<Rightarrow> wal \<Rightarrow> wal" where
  "batch_recv_idle env w =
     (if w_writer w \<noteq> AtSecond then w
      else (case w_buffer w of
        [] \<Rightarrow> if w_bufferClosed w then (snd (flushBatch env w))\<lparr>w_writer := Drained\<rparr> else w
      | e # es \<Rightarrow> w\<lparr>w_buffer := es, w_pending := w_pending w @ [e], w_writer := AtFirst\<rparr>))"

definition batch_tick :: "wal_env \<Rightarrow> wal \<Rightarrow> wal" where
  "batch_tick env w =
     (if w_writer w = AtSecond then (snd (flushBatch env w))\<lparr>w_writer := AtFirst\<rparr> else w)"

definition batch_done :: "wal_env \<Rightarrow> wal \<Rightarrow> wal" where
  "batch_done env w =
     (if w_writer w = AtSecond \<and> w_ctxDone w then (snd (flushBatch env w))\<lparr>w_writer := Cancelled\<rparr> else w)"

definition periodicSync_tick :: "wal \<Rightarrow> wal" where
  "periodicSync_tick w =
     (if w_closed w then w
      else (case bufio_Flush w of
              (Some _, w') \<Rightarrow> w'
            | (None, w') \<Rightarrow> snd (file_Sync w')))"

text \<open>The last flush of \<^verbatim>\<open>periodicSync\<close> when its context is cancelled ignores every error.\<close>

definition periodicSync_done :: "wal \<Rightarrow> wal" where
  "periodicSync_done w = (if w_ctxDone w then snd (file_Sync (snd (bufio_Flush w))) else w)"

datatype rotate_fault = NoFault | FaultSync | FaultClose | FaultRename | FaultOpen

text \<open>\<open>now\<close>: the Unix time in seconds, the only part of a rotated file's name that varies; renaming to a
  name that exists replaces the file there.\<close>

definition wal_rotate :: "wal_env \<Rightarrow> nat \<Rightarrow> rotate_fault \<Rightarrow> wal \<Rightarrow> goerror option \<times> wal" where
  "wal_rotate env now fault w =
     (if w_closed w then (None, w)
      else (case flushBatch env w of
        (Some err, w1) \<Rightarrow> (Some err, w1)
      | (None, w1) \<Rightarrow>
      (case bufio_Flush w1 of
        (Some err, w2) \<Rightarrow> (Some err, w2)
      | (None, w2) \<Rightarrow>
          if \<not> w_open w2 \<or> fault = FaultSync then (Some ErrIO, w2)
          else (let w3 = w2\<lparr>w_synced := length (w_file w2)\<rparr> in
            if fault = FaultClose then (Some ErrIO, w3\<lparr>w_open := False\<rparr>)
            else if fault = FaultRename then (Some ErrIO, w3\<lparr>w_open := False\<rparr>)
            else (let w4 = w3\<lparr>w_backups := gm_put now (w_file w3) (w_backups w3),
                             w_rotated := w_rotated w3 @ [(now, w_file w3)], w_file := [], w_synced := 0\<rparr> in
              if fault = FaultOpen then (Some ErrIO, w4\<lparr>w_open := False\<rparr>)
              else (None, w4\<lparr>w_open := True, w_out := [], w_err := False, w_size := 0\<rparr>))))))"

definition rotateWatcher_tick :: "wal_env \<Rightarrow> nat \<Rightarrow> rotate_fault \<Rightarrow> wal \<Rightarrow> wal" where
  "rotateWatcher_tick env now fault w =
     (if w_rotating w then (snd (wal_rotate env now fault w))\<lparr>w_rotating := False\<rparr> else w)"

text \<open>The goroutine that \<^verbatim>\<open>rotate\<close> leaves behind removes the rotated file after thirty seconds, unless the
  context is done.\<close>

definition remove_backup :: "nat \<Rightarrow> wal \<Rightarrow> wal" where
  "remove_backup n w = (if w_ctxDone w then w else w\<lparr>w_backups := gm_del n (w_backups w)\<rparr>)"

section \<open>Truncate, Sync, Close\<close>

text \<open>\<open>removed\<close>: \<^verbatim>\<open>os.Remove\<close> succeeds; \<open>opened\<close>: the new file can be opened. The wait for the channel to
  drain happens before this step and may time out.\<close>

definition Truncate :: "wal_env \<Rightarrow> bool \<Rightarrow> bool \<Rightarrow> wal \<Rightarrow> goerror option \<times> wal" where
  "Truncate env removed opened w =
     (if w_closed w then (Some ErrWalClosed, w)
      else (let w1 = (snd (file_Sync (snd (bufio_Flush (snd (flushBatch env w))))))\<lparr>w_open := False\<rparr> in
        if \<not> removed then (Some ErrIO, w1)
        else if \<not> opened then (Some ErrIO, w1\<lparr>w_file := [], w_synced := 0\<rparr>)
        else (None, w1\<lparr>w_file := [], w_synced := 0, w_open := True, w_out := [], w_err := False,
                       w_size := 0, w_entries := 0\<rparr>)))"

text \<open>\<^verbatim>\<open>Sync\<close> after its wait for the channel to drain, whose time-out it only logs.\<close>

definition wal_Sync :: "wal \<Rightarrow> goerror option \<times> wal" where
  "wal_Sync w =
     (if w_closed w then (Some ErrWalClosed, w)
      else (case bufio_Flush w of
              (Some _, w') \<Rightarrow> (Some ErrIO, w')
            | (None, w') \<Rightarrow> file_Sync w'))"

text \<open>
  \<^verbatim>\<open>waitForBufferDrain\<close> polls the length of the channel; \<open>lens\<close> are the lengths its polls see and
  the time-out is the end of the list.
\<close>

fun waitForBufferDrain :: "nat list \<Rightarrow> goerror option" where
  "waitForBufferDrain [] = Some ErrTimeout"
| "waitForBufferDrain (n # ns) = (if n = 0 then None else waitForBufferDrain ns)"

definition CloseBuffer :: "wal \<Rightarrow> wal" where
  "CloseBuffer w = (if w_bufferClosed w then w else w\<lparr>w_bufferClosed := True\<rparr>)"

text \<open>\<^verbatim>\<open>Close\<close> in two parts. First it marks the log as closed and closes the channel; then it cancels the
  context (\<open>wal_cancel\<close>, which the database may also have done before) and waits for the workers, at
  most five seconds; the rest is \<open>wal_Close_finish\<close>. What the workers do in between are steps of theirs.\<close>

definition wal_Close_begin :: "wal \<Rightarrow> wal" where
  "wal_Close_begin w = (if w_closed w then w else w\<lparr>w_closed := True, w_bufferClosed := True\<rparr>)"

definition wal_cancel :: "wal \<Rightarrow> wal" where
  "wal_cancel w = w\<lparr>w_ctxDone := True\<rparr>"

definition wal_Close_finish :: "wal_env \<Rightarrow> wal \<Rightarrow> wal" where
  "wal_Close_finish env w =
     (snd (file_Sync (snd (bufio_Flush (snd (flushBatch env w))))))\<lparr>w_open := False\<rparr>"

section \<open>Steps, and Append\<close>

text \<open>What can happen in the log apart from appends: the rounds of its workers, calls of \<^verbatim>\<open>Sync\<close>, and the
  parts of \<^verbatim>\<open>Close\<close>. \<^verbatim>\<open>Truncate\<close> is left out: nothing in the program calls it.\<close>

datatype wal_op =
    WRecv | WRecvIdle | WTick | WDone | WSyncTick | WSyncDone | WRotateTick nat rotate_fault
  | WRemove nat | WSync | WClose | WCancel | WFinish

fun wal_exec :: "wal_env \<Rightarrow> wal \<Rightarrow> wal_op \<Rightarrow> wal" where
  "wal_exec env w WRecv = batch_recv env w"
| "wal_exec env w WRecvIdle = batch_recv_idle env w"
| "wal_exec env w WTick = batch_tick env w"
| "wal_exec env w WDone = batch_done env w"
| "wal_exec env w WSyncTick = periodicSync_tick w"
| "wal_exec env w WSyncDone = periodicSync_done w"
| "wal_exec env w (WRotateTick now fault) = rotateWatcher_tick env now fault w"
| "wal_exec env w (WRemove n) = remove_backup n w"
| "wal_exec env w WSync = snd (wal_Sync w)"
| "wal_exec env w WClose = wal_Close_begin w"
| "wal_exec env w WCancel = wal_cancel w"
| "wal_exec env w WFinish = (if w_closed w then wal_Close_finish env w else w)"

definition stamp :: "64 word \<Rightarrow> wal_entry \<Rightarrow> wal_entry" where
  "stamp now e = (if e_time e = 0 then e\<lparr>e_time := now\<rparr> else e)"

text \<open>The \<^verbatim>\<open>select\<close> of \<^verbatim>\<open>Append\<close> when it is decided: the channel takes the entry, or it has been full for five
  seconds. A send on the closed channel panics.\<close>

definition Append_send :: "wal_entry \<Rightarrow> wal \<Rightarrow> goerror option \<times> wal" where
  "Append_send e w =
     (if w_bufferClosed w then (Some ErrPanic, w)
      else if length (w_buffer w) < bufferCap then
        (None, w\<lparr>w_buffer := w_buffer w @ [e], w_accepted := w_accepted w @ [e]\<rparr>)
      else (Some ErrWalFull, w))"

text \<open>\<open>during\<close>: what else happens between the check, after which \<^verbatim>\<open>Append\<close> has released the lock, and the
  decision of its \<^verbatim>\<open>select\<close>.\<close>

definition Append :: "wal_env \<Rightarrow> 64 word \<Rightarrow> wal_op list \<Rightarrow> wal_entry \<Rightarrow> wal \<Rightarrow> goerror option \<times> wal" where
  "Append env now during e w =
     (if w_closed w then (Some ErrWalClosed, w)
      else Append_send (stamp now e) (foldl (wal_exec env) w during))"

definition wal_GetStats :: "wal \<Rightarrow> 64 word \<times> 64 word \<times> 64 word" where
  "wal_GetStats w = (w_size w, w_entries w, w_flushes w)"

end
