(* ===== verification/WalInv.thy ===== *)
theory WalInv
  imports Wal Interfaces
begin

text \<open>
  What the log guarantees. \<open>healthy\<close> states have an open file and a writer without error;
  \<open>extends\<close> says that an operation added the records of some entries to the byte stream;
  \<open>wal_inv\<close> ties the byte stream, the pending batch and the channel to the entries accepted.
  \<open>wal_run\<close> are the runs of appends and of all steps \<open>wal_op\<close> in any order, with any entries and any failing
  rotation; \<open>wal_inv\<close> holds in those of its states in which the file handle is open and every accepted
  entry can be encoded. The last section states the properties, among them the cases where an
  accepted entry does not reach the disk.
\<close>

section \<open>The buffered writer keeps the byte stream\<close>

definition healthy :: "wal \<Rightarrow> bool" where
  "healthy w \<longleftrightarrow> w_open w \<and> \<not> w_err w \<and> length (w_out w) \<le> writerCap \<and> w_synced w \<le> length (w_file w)"

lemma bufio_Write_healthy:
  assumes "healthy w"
  shows "\<exists>f out. bufio_Write p w = (None, w\<lparr>w_file := f, w_out := out\<rparr>) \<and>
    f @ out = w_file w @ w_out w @ p \<and> healthy (w\<lparr>w_file := f, w_out := out\<rparr>)"
proof -
  let ?avail = "writerCap - length (w_out w)"
  have h: "w_open w" "\<not> w_err w" "length (w_out w) \<le> writerCap" "w_synced w \<le> length (w_file w)"
    using assms by (simp_all add: healthy_def)
  consider "length p \<le> ?avail" | "?avail < length p" "w_out w = []"
    | "?avail < length p" "w_out w \<noteq> []" "length (drop ?avail p) \<le> writerCap"
    | "?avail < length p" "w_out w \<noteq> []" "writerCap < length (drop ?avail p)"
    by linarith
  then show ?thesis
  proof cases
    case 1
    then show ?thesis
      using h by (intro exI [of _ "w_file w"] exI [of _ "w_out w @ p"]) (auto simp: bufio_Write_def healthy_def)
  next
    case 2
    then show ?thesis
      using h by (intro exI [of _ "w_file w @ p"] exI [of _ "[]"])
        (auto simp: bufio_Write_def file_write_def healthy_def)
  next
    case 3
    then show ?thesis
      using h by (intro exI [of _ "w_file w @ w_out w @ take ?avail p"] exI [of _ "drop ?avail p"])
        (auto simp: bufio_Write_def bufio_Flush_def file_write_def healthy_def Let_def)
  next
    case 4
    then show ?thesis
      using h by (intro exI [of _ "w_file w @ w_out w @ p"] exI [of _ "[]"])
        (auto simp: bufio_Write_def bufio_Flush_def file_write_def healthy_def Let_def)
  qed
qed

lemma bufio_Flush_healthy:
  "healthy w \<Longrightarrow> bufio_Flush w = (None, w\<lparr>w_file := w_file w @ w_out w, w_out := []\<rparr>)"
  by (auto simp: bufio_Flush_def file_write_def healthy_def)

text \<open>\<open>extends env es w w'\<close>: \<open>w'\<close> is \<open>w\<close> with the records of \<open>es\<close> added to its byte stream.\<close>

definition extends :: "wal_env \<Rightarrow> wal_entry list \<Rightarrow> wal \<Rightarrow> wal \<Rightarrow> bool" where
  "extends env es w w' \<longleftrightarrow>
     healthy w' \<and> w_cfg w' = w_cfg w \<and> w_buffer w' = w_buffer w \<and> w_pending w' = w_pending w \<and>
     w_backups w' = w_backups w \<and> w_rotated w' = w_rotated w \<and> w_closed w' = w_closed w \<and>
     w_bufferClosed w' = w_bufferClosed w \<and> w_ctxDone w' = w_ctxDone w \<and> w_writer w' = w_writer w \<and>
     w_accepted w' = w_accepted w \<and>
     (\<exists>log fs. map snd log = es \<and>
        wal_format.image_of (we_lib env) (we_pb env) (wc_key (w_cfg w)) log fs \<and>
        w_file w' @ w_out w' = w_file w @ w_out w @ concat fs \<and>
        w_size w' = w_size w + of_nat (length (concat fs)))"

lemma extends_refl: "healthy w \<Longrightarrow> extends env [] w w"
  unfolding extends_def
  by (intro conjI exI [of _ "[]"]) (simp_all add: wal_format.image_of_def)

lemma extends_trans:
  assumes "extends env es1 w w1" "extends env es2 w1 w2"
  shows "extends env (es1 @ es2) w w2"
proof -
  obtain log1 fs1 log2 fs2 where
    "map snd log1 = es1" "wal_format.image_of (we_lib env) (we_pb env) (wc_key (w_cfg w)) log1 fs1"
    "w_file w1 @ w_out w1 = w_file w @ w_out w @ concat fs1"
    "w_size w1 = w_size w + of_nat (length (concat fs1))"
    "map snd log2 = es2" "wal_format.image_of (we_lib env) (we_pb env) (wc_key (w_cfg w1)) log2 fs2"
    "w_file w2 @ w_out w2 = w_file w1 @ w_out w1 @ concat fs2"
    "w_size w2 = w_size w1 + of_nat (length (concat fs2))"
    using assms by (auto simp: extends_def)
  then show ?thesis
    using assms unfolding extends_def
    by (intro conjI exI [of _ "log1 @ log2"] exI [of _ "fs1 @ fs2"])
      (auto simp: wal_format.image_of_def list_all2_appendI)
qed

definition encodable :: "wal_env \<Rightarrow> key \<Rightarrow> wal_entry \<Rightarrow> bool" where
  "encodable env key e \<longleftrightarrow>
     (\<forall>n. nonce_ok (we_rnd env n) \<and>
          (\<exists>f. entry_frame (we_lib env) (we_pb env) key (we_rnd env n) e = Inr f))"

lemma writeEntry_ok:
  assumes "healthy w" "encodable env (wc_key (w_cfg w)) e"
  obtains w' where "writeEntry env e w = (None, w')" "extends env [e] w w'"
proof -
  let ?n = "we_rnd env (w_draws w)"
  obtain f where f: "entry_frame (we_lib env) (we_pb env) (wc_key (w_cfg w)) ?n e = Inr f" and n: "nonce_ok ?n"
    using assms(2) by (auto simp: encodable_def)
  have h0: "healthy (w\<lparr>w_draws := Suc (w_draws w)\<rparr>)"
    using assms(1) by (simp add: healthy_def)
  obtain f1 o1 where w1: "bufio_Write (take headerSize f) (w\<lparr>w_draws := Suc (w_draws w)\<rparr>) =
      (None, w\<lparr>w_draws := Suc (w_draws w), w_file := f1, w_out := o1\<rparr>)"
    "f1 @ o1 = w_file w @ w_out w @ take headerSize f"
    "healthy (w\<lparr>w_draws := Suc (w_draws w), w_file := f1, w_out := o1\<rparr>)"
    using bufio_Write_healthy [OF h0, of "take headerSize f"] by auto
  obtain f2 o2 where w2: "bufio_Write (drop headerSize f) (w\<lparr>w_draws := Suc (w_draws w), w_file := f1, w_out := o1\<rparr>) =
      (None, w\<lparr>w_draws := Suc (w_draws w), w_file := f2, w_out := o2\<rparr>)"
    "f2 @ o2 = f1 @ o1 @ drop headerSize f"
    "healthy (w\<lparr>w_draws := Suc (w_draws w), w_file := f2, w_out := o2\<rparr>)"
    using bufio_Write_healthy [OF w1(3), of "drop headerSize f"] by auto
  have stream: "f2 @ o2 = w_file w @ w_out w @ f"
    using w1(2) w2(2) by (metis append.assoc append_take_drop_id)
  obtain w' where we: "writeEntry env e w = (None, w')"
    and w': "w' = w\<lparr>w_draws := Suc (w_draws w), w_file := f2, w_out := o2,
      w_size := w_size w + of_nat (length f), w_entries := w_entries w + 1,
      w_rotating := (w_rotating w \<or> wc_MaxSize (w_cfg w) <s w_size w + of_nat (length f))\<rparr>"
    using f w1(1) w2(1) by (simp add: writeEntry_def Let_def)
  have "extends env [e] w w'"
    using w2(3) stream f n unfolding extends_def w'
    by (intro conjI exI [of _ "[(?n, e)]"] exI [of _ "[f]"])
      (simp_all add: healthy_def wal_format.image_of_def)
  with we show thesis
    by (rule that)
qed

lemma extends_cfg: "extends env es w w' \<Longrightarrow> w_cfg w' = w_cfg w"
  by (simp add: extends_def)

lemma extends_healthy: "extends env es w w' \<Longrightarrow> healthy w'"
  by (simp add: extends_def)

lemma write_batch_ok:
  assumes "healthy w" "\<forall>e \<in> set es. encodable env (wc_key (w_cfg w)) e"
  shows "\<exists>w'. write_batch env es w = (None, w') \<and> extends env es w w'"
  using assms
proof (induction es arbitrary: w)
  case Nil
  then show ?case
    by (simp add: extends_refl)
next
  case (Cons e es)
  obtain w1 where w1: "writeEntry env e w = (None, w1)" "extends env [e] w w1"
    using writeEntry_ok [of w env e] Cons.prems by auto
  then obtain w2 where "write_batch env es w1 = (None, w2)" "extends env es w1 w2"
    using Cons.IH [of w1] Cons.prems by (auto simp: extends_cfg extends_healthy)
  with w1 show ?case
    using extends_trans by fastforce
qed

lemma extends_upd:
  assumes "extends env es w w'"
  shows "extends env es w (w'\<lparr>w_flushes := n\<rparr>)"
    "extends env es w (w'\<lparr>w_file := w_file w' @ w_out w', w_out := []\<rparr>)"
    "extends env es w (w'\<lparr>w_synced := length (w_file w')\<rparr>)"
  using assms by (auto simp: extends_def healthy_def)

lemma flushBatch_ok:
  assumes "healthy w" "\<forall>e \<in> set (w_pending w). encodable env (wc_key (w_cfg w)) e"
  shows "\<exists>w'. flushBatch env w = (None, w') \<and> extends env (w_pending w) (w\<lparr>w_pending := []\<rparr>) w'
    \<and> (w_pending w \<noteq> [] \<longrightarrow> w_out w' = [])"
proof (cases "w_pending w = []")
  case True
  have "w\<lparr>w_pending := w_pending w\<rparr> = w"
    by simp
  then have "extends env [] (w\<lparr>w_pending := []\<rparr>) w"
    using extends_refl [OF assms(1)] True by metis
  with True show ?thesis
    by (simp add: flushBatch_def)
next
  case False
  let ?w = "w\<lparr>w_pending := []\<rparr>"
  obtain w1 where w1: "write_batch env (w_pending w) ?w = (None, w1)" and e1: "extends env (w_pending w) ?w w1"
    using write_batch_ok [of ?w "w_pending w" env] assms by (auto simp: healthy_def)
  define w2 where "w2 = w1\<lparr>w_file := w_file w1 @ w_out w1, w_out := [], w_flushes := w_flushes w1 + 1\<rparr>"
  have e2: "extends env (w_pending w) ?w w2"
    using extends_upd(1) [OF extends_upd(2) [OF e1], of "w_flushes w1 + 1"] by (simp add: w2_def)
  have h: "healthy w2"
    using e2 by (rule extends_healthy)
  then have "flushBatch env w = (if wc_GroupCommit (w_cfg w2) then file_Sync w2 else (None, w2))"
    using False w1 extends_healthy [OF e1] by (simp add: flushBatch_def bufio_Flush_healthy w2_def Let_def)
  moreover have "file_Sync w2 = (None, w2\<lparr>w_synced := length (w_file w2)\<rparr>)"
    using h by (simp add: file_Sync_def healthy_def)
  moreover have "w_out w2 = []"
    by (simp add: w2_def)
  ultimately show ?thesis
    using e2 extends_upd(3) [OF e2] by auto
qed

section \<open>Nothing accepted is lost, repeated or reordered\<close>

text \<open>Everything ever written, in what the rotated files held, the file and the writer, and the entries
  whose records make it up.\<close>

definition stream :: "wal \<Rightarrow> bytes" where
  "stream w = concat (map snd (w_rotated w)) @ w_file w @ w_out w"

definition records :: "wal_env \<Rightarrow> key \<Rightarrow> bytes \<Rightarrow> wal_entry list \<Rightarrow> bool" where
  "records env key bs es \<longleftrightarrow>
     (\<exists>log fs. map snd log = es \<and> bs = concat fs \<and>
        list_all2 (\<lambda>(rnd, e) f. nonce_ok rnd \<and> entry_frame (we_lib env) (we_pb env) key rnd e = Inr f) log fs)"

definition wal_inv :: "wal_env \<Rightarrow> wal_cfg \<Rightarrow> wal_entry list \<Rightarrow> wal \<Rightarrow> bool" where
  "wal_inv env cfg old w \<longleftrightarrow>
     w_cfg w = cfg \<and> healthy w \<and> w_size w = of_nat (length (w_file w @ w_out w)) \<and>
     (\<forall>e \<in> set (w_pending w) \<union> set (w_buffer w). encodable env (wc_key cfg) e) \<and>
     (\<exists>written. records env (wc_key cfg) (stream w) written \<and>
        old @ w_accepted w = written @ w_pending w @ w_buffer w)"

text \<open>The channel and the place of \<^verbatim>\<open>batchWriter\<close>, in every state.\<close>

definition chan_inv :: "wal \<Rightarrow> bool" where
  "chan_inv w \<longleftrightarrow> length (w_buffer w) \<le> bufferCap \<and> (w_closed w \<longrightarrow> w_bufferClosed w) \<and>
     (w_writer w = Drained \<longrightarrow> w_bufferClosed w \<and> w_buffer w = [])"

inductive wal_run :: "wal_env \<Rightarrow> wal_cfg \<Rightarrow> bytes \<Rightarrow> wal \<Rightarrow> bool"
  for env cfg content
where
  run_New: "wal_run env cfg content (wal_New cfg content)"
| run_Append: "wal_run env cfg content w \<Longrightarrow> wal_run env cfg content (snd (Append env now during e w))"
| run_step: "wal_run env cfg content w \<Longrightarrow> wal_run env cfg content (wal_exec env w op)"

lemma records_append:
  "records env key a es \<Longrightarrow> records env key b es' \<Longrightarrow> records env key (a @ b) (es @ es')"
  unfolding records_def
proof (elim exE conjE)
  fix log1 fs1 log2 fs2
  assume "map snd log1 = es" "a = concat fs1" "map snd log2 = es'" "b = concat fs2"
    and "list_all2 (\<lambda>(rnd, e) f. nonce_ok rnd \<and> entry_frame (we_lib env) (we_pb env) key rnd e = Inr f) log1 fs1"
    and "list_all2 (\<lambda>(rnd, e) f. nonce_ok rnd \<and> entry_frame (we_lib env) (we_pb env) key rnd e = Inr f) log2 fs2"
  then show "\<exists>log fs. map snd log = es @ es' \<and> a @ b = concat fs \<and>
      list_all2 (\<lambda>(rnd, e) f. nonce_ok rnd \<and> entry_frame (we_lib env) (we_pb env) key rnd e = Inr f) log fs"
    by (intro exI [of _ "log1 @ log2"] exI [of _ "fs1 @ fs2"]) (simp add: list_all2_appendI)
qed

lemma records_Nil [simp]: "records env key [] []"
  unfolding records_def by (intro exI [of _ "[]"]) simp

lemma records_read:
  assumes "proto_faithful (we_pb env)" "records env key bs es"
  shows "ReadAll (we_lib env) (we_pb env) key bs = concat (map (recovered_list (we_lib env)) es)"
proof -
  obtain log fs where es: "map snd log = es" and bs: "bs = concat fs"
    and im: "list_all2 (\<lambda>(rnd, e) f. nonce_ok rnd \<and> entry_frame (we_lib env) (we_pb env) key rnd e = Inr f) log fs"
    using assms(2) unfolding records_def by blast
  from im have "wal_format.image_of (we_lib env) (we_pb env) key log fs"
    by (simp add: wal_format.image_of_def)
  from wal_format.readall_image [OF assms(1) this] show ?thesis
    using es bs by (simp add: case_prod_unfold flip: map_map [unfolded comp_def] cong: map_cong)
qed

text \<open>A step that extends the stream by the pending entries and empties the batch.\<close>

lemma extends_records:
  assumes "extends env es w0 w'" "w_cfg w0 = cfg"
  shows "\<exists>x. stream w' = stream w0 @ x \<and> records env (wc_key cfg) x es \<and> w_size w' = w_size w0 + of_nat (length x)
     \<and> length (w_file w' @ w_out w') = length (w_file w0 @ w_out w0) + length x"
proof -
  obtain log fs where "map snd log = es"
    "wal_format.image_of (we_lib env) (we_pb env) (wc_key cfg) log fs"
    "w_file w' @ w_out w' = w_file w0 @ w_out w0 @ concat fs"
    "w_size w' = w_size w0 + of_nat (length (concat fs))"
    using assms by (auto simp: extends_def)
  moreover from this have "length (w_file w' @ w_out w') = length (w_file w0 @ w_out w0) + length (concat fs)"
    by simp
  moreover have "w_rotated w' = w_rotated w0"
    using assms(1) by (simp add: extends_def)
  ultimately show ?thesis
    unfolding records_def stream_def
    by (intro exI [of _ "concat fs"]) (auto simp: wal_format.image_of_def)
qed

lemma flush_inv:
  assumes inv: "wal_inv env cfg old w"
  obtains w' where "flushBatch env w = (None, w')" "wal_inv env cfg old w'" "w_pending w' = []"
    "w_buffer w' = w_buffer w" "w_accepted w' = w_accepted w" "w_closed w' = w_closed w"
    "w_bufferClosed w' = w_bufferClosed w" "w_backups w' = w_backups w" "w_rotated w' = w_rotated w"
    "w_writer w' = w_writer w" "w_ctxDone w' = w_ctxDone w"
proof -
  have h: "healthy w" "w_cfg w = cfg" "\<forall>e \<in> set (w_pending w). encodable env (wc_key (w_cfg w)) e"
    using inv by (auto simp: wal_inv_def)
  obtain w' where w': "flushBatch env w = (None, w')" "extends env (w_pending w) (w\<lparr>w_pending := []\<rparr>) w'"
    using flushBatch_ok [OF h(1,3)] by blast
  obtain x where x: "stream w' = stream w @ x" "records env (wc_key cfg) x (w_pending w)"
    "w_size w' = w_size w + of_nat (length x)"
    "length (w_file w' @ w_out w') = length (w_file w @ w_out w) + length x"
    using extends_records [OF w'(2)] h(2) by (auto simp: stream_def)
  obtain written where rec: "records env (wc_key cfg) (stream w) written"
    "old @ w_accepted w = written @ w_pending w @ w_buffer w"
    using inv by (auto simp: wal_inv_def)
  have "records env (wc_key cfg) (stream w') (written @ w_pending w)"
    unfolding x(1) by (rule records_append [OF rec(1) x(2)])
  moreover have "w_size w' = of_nat (length (w_file w' @ w_out w'))"
    unfolding x(3,4) using inv by (simp add: wal_inv_def)
  moreover have ext: "healthy w'" "w_cfg w' = cfg" "w_buffer w' = w_buffer w" "w_pending w' = []"
    "w_accepted w' = w_accepted w" "w_closed w' = w_closed w" "w_bufferClosed w' = w_bufferClosed w"
    "w_backups w' = w_backups w" "w_rotated w' = w_rotated w" "w_writer w' = w_writer w" "w_ctxDone w' = w_ctxDone w"
    using w'(2) h(2) by (auto simp: extends_def)
  ultimately have "wal_inv env cfg old w'"
    using inv rec(2) by (auto simp: wal_inv_def)
  with w'(1) ext show thesis
    by (intro that) assumption+
qed

lemma wal_inv_New:
  "records env (wc_key cfg) content old \<Longrightarrow> wal_inv env cfg old (wal_New cfg content)"
  by (simp add: wal_inv_def wal_New_def healthy_def stream_def)

lemma wal_inv_upd [simp]:
  "wal_inv env cfg old (w\<lparr>w_writer := pc\<rparr>) = wal_inv env cfg old w"
  "wal_inv env cfg old (w\<lparr>w_ctxDone := c\<rparr>) = wal_inv env cfg old w"
  "wal_inv env cfg old (w\<lparr>w_rotating := r\<rparr>) = wal_inv env cfg old w"
  "wal_inv env cfg old (w\<lparr>w_backups := b\<rparr>) = wal_inv env cfg old w"
  "wal_inv env cfg old (w\<lparr>w_closed := cl, w_bufferClosed := bc\<rparr>) = wal_inv env cfg old w"
  by (simp_all add: wal_inv_def healthy_def stream_def)

lemma take_inv:
  assumes "wal_inv env cfg old w" "w_buffer w = e # es"
  shows "wal_inv env cfg old (w\<lparr>w_buffer := es, w_pending := w_pending w @ [e]\<rparr>)"
  using assms by (auto simp: wal_inv_def healthy_def stream_def)

lemma recv_inv:
  assumes "wal_inv env cfg old w"
  shows "wal_inv env cfg old (batch_recv env w)" "wal_inv env cfg old (batch_recv_idle env w)"
    "wal_inv env cfg old (batch_tick env w)" "wal_inv env cfg old (batch_done env w)"
proof -
  have flush: "wal_inv env cfg old (snd (flushBatch env v))" if "wal_inv env cfg old v" for v
    using flush_inv [OF that] by (metis snd_conv)
  show "wal_inv env cfg old (batch_recv env w)"
    using assms flush take_inv [OF assms] by (auto simp: batch_recv_def Let_def split: list.split)
  have "wal_inv env cfg old (w\<lparr>w_buffer := es, w_pending := w_pending w @ [e], w_writer := AtFirst\<rparr>)"
    if "w_buffer w = e # es" for e es
    using take_inv [OF assms that] wal_inv_upd(1) [of env cfg old AtFirst "w\<lparr>w_buffer := es, w_pending := w_pending w @ [e]\<rparr>"]
    by simp
  then show "wal_inv env cfg old (batch_recv_idle env w)"
    using assms flush by (auto simp: batch_recv_idle_def split: list.split)
  show "wal_inv env cfg old (batch_tick env w)" "wal_inv env cfg old (batch_done env w)"
    using assms flush by (simp_all add: batch_tick_def batch_done_def)
qed

text \<open>Changes that only move bytes from the writer to the file, or only mark bytes as synced.\<close>

lemma flush_sync_inv:
  assumes "wal_inv env cfg old w"
  shows "bufio_Flush w = (None, w\<lparr>w_file := w_file w @ w_out w, w_out := []\<rparr>)"
    "wal_inv env cfg old (w\<lparr>w_file := w_file w @ w_out w, w_out := []\<rparr>)"
    "file_Sync w = (None, w\<lparr>w_synced := length (w_file w)\<rparr>)"
    "wal_inv env cfg old (w\<lparr>w_synced := length (w_file w)\<rparr>)"
  using assms bufio_Flush_healthy [of w]
  by (auto simp: wal_inv_def healthy_def stream_def file_Sync_def)

lemma flush_then_sync:
  assumes "wal_inv env cfg old w"
  defines "w' \<equiv> w\<lparr>w_file := w_file w @ w_out w, w_out := [], w_synced := length (w_file w @ w_out w)\<rparr>"
  shows "file_Sync (snd (bufio_Flush w)) = (None, w')" "wal_inv env cfg old w'"
  using flush_sync_inv [OF assms(1)] flush_sync_inv [OF flush_sync_inv(2) [OF assms(1)]]
  by (simp_all add: w'_def)

text \<open>A rotation, in which closing, renaming or opening may fail.\<close>

lemma rotate_inv:
  assumes inv: "wal_inv env cfg old w" and opn: "\<not> w_closed w"
  obtains w1 where "flushBatch env w = (None, w1)" "wal_inv env cfg old w1" "w_accepted w1 = w_accepted w"
    "w_buffer w1 = w_buffer w" "w_pending w1 = []" "w_backups w1 = w_backups w" "w_rotated w1 = w_rotated w"
    "w_bufferClosed w1 = w_bufferClosed w" "w_closed w1 = w_closed w"
    "wal_rotate env now FaultRename w =
       (Some ErrIO, w1\<lparr>w_file := w_file w1 @ w_out w1, w_out := [], w_synced := length (w_file w1 @ w_out w1), w_open := False\<rparr>)"
    "wal_rotate env now NoFault w =
       (None, w1\<lparr>w_file := [], w_out := [], w_synced := 0, w_backups := gm_put now (w_file w1 @ w_out w1) (w_backups w1),
         w_rotated := w_rotated w1 @ [(now, w_file w1 @ w_out w1)], w_open := True, w_err := False, w_size := 0\<rparr>)"
    "fault \<noteq> NoFault \<Longrightarrow> w_open (snd (wal_rotate env now fault w)) \<Longrightarrow>
       snd (wal_rotate env now fault w) = w1\<lparr>w_file := w_file w1 @ w_out w1, w_out := []\<rparr>"
proof -
  obtain w1 where w1: "flushBatch env w = (None, w1)" "wal_inv env cfg old w1" "w_accepted w1 = w_accepted w"
    "w_buffer w1 = w_buffer w" "w_pending w1 = []" "w_backups w1 = w_backups w" "w_rotated w1 = w_rotated w"
    "w_bufferClosed w1 = w_bufferClosed w" "w_closed w1 = w_closed w"
    using flush_inv [OF inv] by metis
  have open1: "w_open w1"
    using w1(2) by (simp add: wal_inv_def healthy_def)
  note rot = w1(1) opn open1 flush_sync_inv(1) [OF w1(2)] Let_def
  have "wal_rotate env now FaultRename w =
       (Some ErrIO, w1\<lparr>w_file := w_file w1 @ w_out w1, w_out := [], w_synced := length (w_file w1 @ w_out w1), w_open := False\<rparr>)"
    by (simp add: wal_rotate_def rot)
  moreover have "wal_rotate env now NoFault w =
       (None, w1\<lparr>w_file := [], w_out := [], w_synced := 0, w_backups := gm_put now (w_file w1 @ w_out w1) (w_backups w1),
         w_rotated := w_rotated w1 @ [(now, w_file w1 @ w_out w1)], w_open := True, w_err := False, w_size := 0\<rparr>)"
    by (simp add: wal_rotate_def rot)
  moreover have "snd (wal_rotate env now fault w) = w1\<lparr>w_file := w_file w1 @ w_out w1, w_out := []\<rparr>"
    if "fault \<noteq> NoFault" "w_open (snd (wal_rotate env now fault w))"
    using that by (cases fault) (simp_all add: wal_rotate_def rot)
  ultimately show thesis
    using that [OF w1] by blast
qed

lemma rotate_tick_inv:
  assumes inv: "wal_inv env cfg old w" and opn: "w_open (rotateWatcher_tick env now fault w)"
  shows "wal_inv env cfg old (rotateWatcher_tick env now fault w)"
proof (cases "w_closed w \<or> \<not> w_rotating w")
  case True
  with inv show ?thesis
    by (auto simp: rotateWatcher_tick_def wal_rotate_def)
next
  case False
  then have "\<not> w_closed w" by simp
  from rotate_inv [OF inv this, of now fault] obtain w1 where w1: "wal_inv env cfg old w1" "w_pending w1 = []"
    "wal_rotate env now NoFault w =
       (None, w1\<lparr>w_file := [], w_out := [], w_synced := 0, w_backups := gm_put now (w_file w1 @ w_out w1) (w_backups w1),
         w_rotated := w_rotated w1 @ [(now, w_file w1 @ w_out w1)], w_open := True, w_err := False, w_size := 0\<rparr>)"
    "fault \<noteq> NoFault \<Longrightarrow> w_open (snd (wal_rotate env now fault w)) \<Longrightarrow>
       snd (wal_rotate env now fault w) = w1\<lparr>w_file := w_file w1 @ w_out w1, w_out := []\<rparr>"
    by metis
  have "wal_inv env cfg old (snd (wal_rotate env now fault w))"
  proof (cases "fault = NoFault")
    case True
    with w1(1,3) show ?thesis
      by (auto simp: wal_inv_def healthy_def stream_def)
  next
    case False
    with w1(4) opn \<open>\<not> (w_closed w \<or> \<not> w_rotating w)\<close> flush_sync_inv(2) [OF w1(1)] show ?thesis
      by (simp add: rotateWatcher_tick_def)
  qed
  with False show ?thesis
    by (simp add: rotateWatcher_tick_def)
qed

lemma wal_exec_inv:
  assumes "wal_inv env cfg old w" "w_open (wal_exec env w op)"
  shows "wal_inv env cfg old (wal_exec env w op)"
proof (cases op)
  case WSyncTick
  then show ?thesis
    using assms flush_sync_inv(1) [OF assms(1)] flush_then_sync [OF assms(1)] by (simp add: periodicSync_tick_def)
next
  case WSyncDone
  then show ?thesis
    using assms flush_then_sync [OF assms(1)] by (simp add: periodicSync_done_def)
next
  case WSync
  then show ?thesis
    using assms flush_sync_inv(1) [OF assms(1)] flush_then_sync [OF assms(1)] by (simp add: wal_Sync_def)
next
  case (WRotateTick now fault)
  then show ?thesis
    using assms rotate_tick_inv by simp
next
  case WFinish
  then show ?thesis
    using assms by (simp add: wal_Close_finish_def split: if_splits)
qed (use assms recv_inv in \<open>simp_all add: remove_backup_def wal_Close_begin_def wal_cancel_def\<close>)

text \<open>A file handle that is closed stays closed, and the steps of the log accept nothing.\<close>

definition core :: "wal \<Rightarrow> wal_entry list \<times> bool \<times> wal_cfg \<times> bool \<times> bool" where
  "core w = (w_accepted w, w_open w, w_cfg w, w_closed w, w_bufferClosed w)"

lemma core_upd [simp]:
  "core (w\<lparr>w_draws := n\<rparr>) = core w" "core (w\<lparr>w_pending := p\<rparr>) = core w" "core (w\<lparr>w_flushes := f\<rparr>) = core w"
  "core (w\<lparr>w_buffer := b\<rparr>) = core w" "core (w\<lparr>w_size := sz\<rparr>) = core w" "core (w\<lparr>w_entries := en\<rparr>) = core w"
  "core (w\<lparr>w_rotating := r\<rparr>) = core w" "core (w\<lparr>w_synced := sy\<rparr>) = core w" "core (w\<lparr>w_writer := pc\<rparr>) = core w"
  "core (w\<lparr>w_file := fi\<rparr>) = core w" "core (w\<lparr>w_out := ou\<rparr>) = core w" "core (w\<lparr>w_err := er\<rparr>) = core w"
  "core (w\<lparr>w_backups := ba\<rparr>) = core w" "core (w\<lparr>w_ctxDone := ct\<rparr>) = core w" "core (w\<lparr>w_rotated := ro\<rparr>) = core w"
  by (simp_all add: core_def)

text \<open>What a flush does to the channel's side of the state: nothing but empty the batch.\<close>

definition front :: "wal \<Rightarrow> wal_entry list \<times> writer_pc \<times> bool" where
  "front w = (w_buffer w, w_writer w, w_ctxDone w)"

lemma front_upd [simp]:
  "front (w\<lparr>w_draws := n\<rparr>) = front w" "front (w\<lparr>w_pending := p\<rparr>) = front w" "front (w\<lparr>w_flushes := f\<rparr>) = front w"
  "front (w\<lparr>w_size := sz\<rparr>) = front w" "front (w\<lparr>w_entries := en\<rparr>) = front w" "front (w\<lparr>w_open := opn\<rparr>) = front w"
  "front (w\<lparr>w_rotating := r\<rparr>) = front w" "front (w\<lparr>w_synced := sy\<rparr>) = front w"
  "front (w\<lparr>w_file := fi\<rparr>) = front w" "front (w\<lparr>w_out := ou\<rparr>) = front w" "front (w\<lparr>w_err := er\<rparr>) = front w"
  "front (w\<lparr>w_backups := ba\<rparr>) = front w" "front (w\<lparr>w_rotated := ro\<rparr>) = front w"
  by (simp_all add: front_def)

lemma core_file_write [simp]: "core (snd (file_write p w)) = core w" "front (snd (file_write p w)) = front w"
  by (simp_all add: file_write_def)

lemma core_bufio_Flush [simp]: "core (snd (bufio_Flush w)) = core w" "front (snd (bufio_Flush w)) = front w"
  by (simp_all add: bufio_Flush_def file_write_def)

lemma core_bufio_Write [simp]: "core (snd (bufio_Write p w)) = core w" "front (snd (bufio_Write p w)) = front w"
  by (auto simp: bufio_Write_def bufio_Flush_def file_write_def Let_def)

lemma core_file_Sync [simp]: "core (snd (file_Sync w)) = core w" "front (snd (file_Sync w)) = front w"
  by (simp_all add: file_Sync_def)

lemma core_writeEntry [simp]: "core (snd (writeEntry env e w)) = core w" "front (snd (writeEntry env e w)) = front w"
proof -
  let ?w = "w\<lparr>w_draws := Suc (w_draws w)\<rparr>"
  have "core (snd (writeEntry env e w)) = core w \<and> front (snd (writeEntry env e w)) = front w"
  proof (cases "entry_frame (we_lib env) (we_pb env) (wc_key (w_cfg w)) (we_rnd env (w_draws w)) e")
    case (Inl err)
    then show ?thesis by (simp add: writeEntry_def)
  next
    case (Inr f)
    obtain r1 w1 where w1: "bufio_Write (take headerSize f) ?w = (r1, w1)"
      by fastforce
    obtain r2 w2 where w2: "bufio_Write (drop headerSize f) w1 = (r2, w2)"
      by fastforce
    have "core w1 = core w" "core w2 = core w1" "front w1 = front w" "front w2 = front w1"
      using core_bufio_Write [of "take headerSize f" ?w] core_bufio_Write [of "drop headerSize f" w1] w1 w2 by simp_all
    with Inr w1 w2 show ?thesis
      by (cases r1; cases r2) (simp_all add: writeEntry_def Let_def)
  qed
  then show "core (snd (writeEntry env e w)) = core w" "front (snd (writeEntry env e w)) = front w"
    by simp_all
qed

lemma core_write_batch [simp]: "core (snd (write_batch env es w)) = core w" "front (snd (write_batch env es w)) = front w"
proof -
  have "core (snd (write_batch env es w)) = core w \<and> front (snd (write_batch env es w)) = front w"
  proof (induction es arbitrary: w)
    case (Cons e es)
    obtain r w1 where w1: "writeEntry env e w = (r, w1)"
      by fastforce
    then have "core w1 = core w" "front w1 = front w"
      by (metis core_writeEntry snd_conv)+
    with w1 Cons.IH show ?case
      by (cases r) simp_all
  qed simp
  then show "core (snd (write_batch env es w)) = core w" "front (snd (write_batch env es w)) = front w"
    by simp_all
qed

lemma core_flushBatch [simp]: "core (snd (flushBatch env w)) = core w" "front (snd (flushBatch env w)) = front w"
proof -
  obtain r1 w1 where w1: "write_batch env (w_pending w) (w\<lparr>w_pending := []\<rparr>) = (r1, w1)"
    by fastforce
  obtain r2 w2 where w2: "bufio_Flush w1 = (r2, w2)"
    by fastforce
  have "core w1 = core w" "core w2 = core w1" "front w1 = front w" "front w2 = front w1"
    using core_write_batch [of env "w_pending w" "w\<lparr>w_pending := []\<rparr>"] core_bufio_Flush [of w1] w1 w2
    by simp_all
  with w1 w2 show "core (snd (flushBatch env w)) = core w" "front (snd (flushBatch env w)) = front w"
    by (cases r1; cases r2; simp add: flushBatch_def Let_def)+
qed

lemma wal_rotate_core:
  "w_accepted (snd (wal_rotate env now fault w)) = w_accepted w" "w_cfg (snd (wal_rotate env now fault w)) = w_cfg w"
  "w_closed (snd (wal_rotate env now fault w)) = w_closed w"
  "w_bufferClosed (snd (wal_rotate env now fault w)) = w_bufferClosed w"
  "w_open (snd (wal_rotate env now fault w)) \<Longrightarrow> w_open w" "front (snd (wal_rotate env now fault w)) = front w"
proof -
  obtain r1 w1 where w1: "flushBatch env w = (r1, w1)"
    by fastforce
  obtain r2 w2 where w2: "bufio_Flush w1 = (r2, w2)"
    by fastforce
  have c: "core w2 = core w" "core w1 = core w" and f: "front w2 = front w" "front w1 = front w"
    using core_flushBatch [of env w] core_bufio_Flush [of w1] w1 w2 by simp_all
  have "core (snd (wal_rotate env now fault w)) = core w \<or>
      (core (snd (wal_rotate env now fault w)) = core (w\<lparr>w_open := False\<rparr>))" and
    "front (snd (wal_rotate env now fault w)) = front w"
    using w1 w2 c f by (cases r1; cases r2; auto simp: wal_rotate_def Let_def core_def)+
  then show "w_accepted (snd (wal_rotate env now fault w)) = w_accepted w" "w_cfg (snd (wal_rotate env now fault w)) = w_cfg w"
    "w_closed (snd (wal_rotate env now fault w)) = w_closed w"
    "w_bufferClosed (snd (wal_rotate env now fault w)) = w_bufferClosed w"
    "w_open (snd (wal_rotate env now fault w)) \<Longrightarrow> w_open w" "front (snd (wal_rotate env now fault w)) = front w"
    by (auto simp: core_def)
qed

lemma wal_Sync_core: "core (snd (wal_Sync w)) = core w" "front (snd (wal_Sync w)) = front w"
  and periodicSync_core: "core (periodicSync_tick w) = core w" "front (periodicSync_tick w) = front w"
proof -
  obtain r w1 where w1: "bufio_Flush w = (r, w1)"
    by fastforce
  then have "core w1 = core w" "front w1 = front w"
    using core_bufio_Flush [of w] by simp_all
  with w1 show "core (snd (wal_Sync w)) = core w" "front (snd (wal_Sync w)) = front w"
    "core (periodicSync_tick w) = core w" "front (periodicSync_tick w) = front w"
    by (cases r; simp add: wal_Sync_def periodicSync_tick_def)+
qed

lemma coreD:
  "core w' = core w \<Longrightarrow> w_accepted w' = w_accepted w \<and> w_open w' = w_open w \<and> w_cfg w' = w_cfg w \<and>
     w_closed w' = w_closed w \<and> w_bufferClosed w' = w_bufferClosed w"
  by (simp add: core_def)

lemma wal_exec_core:
  "w_accepted (wal_exec env w op) = w_accepted w" "w_cfg (wal_exec env w op) = w_cfg w"
  "w_open (wal_exec env w op) \<Longrightarrow> w_open w" "w_closed w \<Longrightarrow> w_closed (wal_exec env w op)"
proof -
  have "core (wal_exec env w op) = core w" if "op \<in> {WRecv, WRecvIdle, WTick, WDone, WSyncTick, WSyncDone, WSync, WCancel}"
    using that by (auto simp: batch_recv_def batch_recv_idle_def batch_tick_def batch_done_def Let_def
        periodicSync_done_def wal_cancel_def wal_Sync_core periodicSync_core split: list.split)
  note plain = coreD [OF this]
  have finish: "core (wal_Close_finish env w) = core (w\<lparr>w_open := False\<rparr>)"
    using coreD [OF core_flushBatch(1) [of env w]] coreD [OF core_bufio_Flush(1) [of "snd (flushBatch env w)"]]
      coreD [OF core_file_Sync(1) [of "snd (bufio_Flush (snd (flushBatch env w)))"]]
    by (simp add: wal_Close_finish_def core_def)
  have "w_accepted (wal_exec env w op) = w_accepted w \<and> w_cfg (wal_exec env w op) = w_cfg w \<and>
      (w_open (wal_exec env w op) \<longrightarrow> w_open w) \<and> (w_closed w \<longrightarrow> w_closed (wal_exec env w op))"
  proof (cases op)
    case (WRotateTick now fault)
    then show ?thesis
      using wal_rotate_core [of env now fault w] by (simp add: rotateWatcher_tick_def)
  next
    case WFinish
    then show ?thesis
      using coreD [OF finish] by simp
  qed (use plain in \<open>auto simp: remove_backup_def wal_Close_begin_def\<close>)
  then show "w_accepted (wal_exec env w op) = w_accepted w" "w_cfg (wal_exec env w op) = w_cfg w"
    "w_open (wal_exec env w op) \<Longrightarrow> w_open w" "w_closed w \<Longrightarrow> w_closed (wal_exec env w op)"
    by auto
qed

text \<open>The same for any number of steps.\<close>

lemma steps_accepted: "w_accepted (foldl (wal_exec env) w ops) = w_accepted w"
  by (induction ops arbitrary: w) (simp_all add: wal_exec_core(1))

lemma steps_open: "w_open (foldl (wal_exec env) w ops) \<Longrightarrow> w_open w"
proof (induction ops arbitrary: w)
  case (Cons op ops)
  then show ?case
    using wal_exec_core(3) [of env w op] by simp
qed simp

lemma steps_closed: "w_closed w \<Longrightarrow> w_closed (foldl (wal_exec env) w ops)"
proof (induction ops arbitrary: w)
  case (Cons op ops)
  then show ?case
    using wal_exec_core(4) [of w env op] by simp
qed simp

lemmas steps_core = steps_accepted steps_open steps_closed

lemma steps_inv:
  "wal_inv env cfg old w \<Longrightarrow> w_open (foldl (wal_exec env) w ops) \<Longrightarrow> wal_inv env cfg old (foldl (wal_exec env) w ops)"
proof (induction ops arbitrary: w)
  case (Cons op ops)
  then show ?case
    using wal_exec_inv [of env cfg old w op] steps_open [of env "wal_exec env w op" ops] by simp
qed simp

lemma Append_send_inv:
  assumes "wal_inv env cfg old w" "fst (Append_send e w) = None \<Longrightarrow> encodable env (wc_key cfg) e"
  shows "wal_inv env cfg old (snd (Append_send e w))"
  using assms by (auto simp: Append_send_def wal_inv_def healthy_def stream_def split: if_splits)

lemma Append_accepted:
  "w_accepted (snd (Append env now during e w)) =
     w_accepted w @ (if fst (Append env now during e w) = None then [stamp now e] else [])"
  by (simp add: Append_def Append_send_def steps_core)

lemma Append_inv:
  assumes "wal_inv env cfg old w" "w_open (snd (Append env now during e w))"
    and "\<forall>e \<in> set (w_accepted (snd (Append env now during e w))). encodable env (wc_key cfg) e"
  shows "wal_inv env cfg old (snd (Append env now during e w))"
proof (cases "w_closed w")
  case True
  with assms(1) show ?thesis
    by (simp add: Append_def)
next
  case False
  let ?v = "foldl (wal_exec env) w during"
  have app: "Append env now during e w = Append_send (stamp now e) ?v"
    using False by (simp add: Append_def)
  have "w_open (snd (Append_send (stamp now e) ?v)) = w_open ?v"
    by (simp add: Append_send_def)
  then have "wal_inv env cfg old ?v"
    using assms(1,2) app steps_inv by simp
  moreover have "encodable env (wc_key cfg) (stamp now e)" if "fst (Append_send (stamp now e) ?v) = None"
    using assms(3) that Append_accepted [of env now during e w] by (simp add: app)
  ultimately show ?thesis
    using Append_send_inv app by simp
qed

lemma wal_run_inv:
  assumes "wal_run env cfg content w" "records env (wc_key cfg) content old"
    and "w_open w" "\<forall>e \<in> set (w_accepted w). encodable env (wc_key cfg) e"
  shows "wal_inv env cfg old w"
  using assms(1,3,4)
proof (induction rule: wal_run.induct)
  case run_New
  show ?case
    using assms(2) by (rule wal_inv_New)
next
  case (run_Append w now during e)
  have "w_open w"
    using run_Append.prems(1) steps_core(2) [of env w during] by (auto simp: Append_def Append_send_def split: if_splits)
  moreover have "\<forall>e \<in> set (w_accepted w). encodable env (wc_key cfg) e"
    using run_Append.prems(2) by (simp add: Append_accepted)
  ultimately show ?case
    using run_Append by (intro Append_inv) simp_all
next
  case (run_step w op)
  then show ?case
    using wal_exec_core by (intro wal_exec_inv) auto
qed

lemma frontD: "front w' = front w \<Longrightarrow> w_buffer w' = w_buffer w \<and> w_writer w' = w_writer w \<and> w_ctxDone w' = w_ctxDone w"
  by (simp add: front_def)

lemma chan_inv_cong:
  "chan_inv w \<Longrightarrow> front w' = front w \<Longrightarrow> w_closed w' = w_closed w \<Longrightarrow> w_bufferClosed w' = w_bufferClosed w \<Longrightarrow> chan_inv w'"
  by (auto simp: chan_inv_def front_def)

lemma chan_exec:
  assumes "chan_inv w"
  shows "chan_inv (wal_exec env w op)"
proof -
  note fl = frontD [OF core_flushBatch(2)] coreD [OF core_flushBatch(1)]
  have "chan_inv (wal_exec env w WRecv)" "chan_inv (wal_exec env w WRecvIdle)"
    "chan_inv (wal_exec env w WTick)" "chan_inv (wal_exec env w WDone)"
    using assms by (auto simp: batch_recv_def batch_recv_idle_def batch_tick_def batch_done_def Let_def chan_inv_def fl
        split: list.split)
  moreover have "chan_inv (wal_exec env w WSyncTick)" "chan_inv (wal_exec env w WSync)"
    by (rule chan_inv_cong [OF assms]; simp add: wal_Sync_core periodicSync_core coreD [OF wal_Sync_core(1)] coreD [OF periodicSync_core(1)])+
  moreover have "chan_inv (snd (file_Sync (snd (bufio_Flush w))))"
    by (rule chan_inv_cong [OF assms]; simp add: coreD [OF core_file_Sync(1)] coreD [OF core_bufio_Flush(1)])
  then have "chan_inv (wal_exec env w WSyncDone)"
    using assms by (simp add: periodicSync_done_def)
  moreover have "chan_inv (wal_exec env w (WRotateTick now fault))" for now fault
    using wal_rotate_core [of env now fault w] by (auto intro!: chan_inv_cong [OF assms] simp: rotateWatcher_tick_def)
  moreover have "chan_inv (wal_exec env w WFinish)"
    by (auto intro!: chan_inv_cong [OF assms] simp: wal_Close_finish_def coreD [OF core_file_Sync(1)]
        coreD [OF core_bufio_Flush(1)] coreD [OF core_flushBatch(1)])
  moreover have "chan_inv (wal_exec env w WClose)" "chan_inv (wal_exec env w WCancel)" "chan_inv (wal_exec env w (WRemove n))" for n
    using assms by (auto simp: wal_Close_begin_def wal_cancel_def remove_backup_def chan_inv_def)
  ultimately show ?thesis
    by (cases op) auto
qed

lemma wal_run_chan: "wal_run env cfg content w \<Longrightarrow> chan_inv w"
proof (induction rule: wal_run.induct)
  case (run_Append w now during e)
  have "chan_inv (foldl (wal_exec env) w during)"
    using run_Append.IH by (induction during arbitrary: w) (simp_all add: chan_exec)
  then show ?case
    using run_Append.IH by (auto simp: Append_def Append_send_def chan_inv_def)
qed (simp_all add: chan_exec, simp add: wal_New_def chan_inv_def)

section \<open>Properties of the log\<close>

definition sample_env :: wal_env where
  "sample_env = \<lparr>we_lib = sample_lib, we_pb = sample_pb [sample_message (VInt 5)], we_rnd = (\<lambda>_. None)\<rparr>"

definition sample_cfg :: wal_cfg where
  "sample_cfg = \<lparr>wc_key = zero_key, wc_BatchSize = 0, wc_MaxSize = 104857600, wc_GroupCommit = False\<rparr>"

lemma sample_encodable: "encodable sample_env (wc_key sample_cfg) (stamp 9 (sample_entry (VInt 5)))"
proof -
  have "stamp 9 (sample_entry (VInt 5)) = sample_entry (VInt 5)"
    by (simp add: stamp_def sample_entry_def)
  then show ?thesis
    using sample_frame by (simp add: encodable_def sample_env_def sample_cfg_def nonce_ok_def)
qed

text \<open>C4: run the log with any appends, any rounds of its workers, syncs, rotations and shutdown steps in
  any order. In every state in which the file handle is open (no rotation has failed after closing it,
  and \<^verbatim>\<open>Close\<close> has not finished) and every accepted entry can be encoded (its value and its record are
  accepted by the encoders, and the random source yields nonces), the accepted entries are, in
  the order of acceptance, those recorded in the byte stream, then the pending batch, then the channel:
  none is lost, repeated or reordered between them, and decoding the stream yields exactly the
  recorded ones. The byte stream is what the file held at each rotation, what it holds now and what is
  in the writer; that a rotated file may since have been replaced or removed is another property. The
  channel and the writer stay within their capacities, and the size counter is the number of bytes
  (modulo its width).\<close>
theorem wal_accepts_in_order:
  assumes "wal_run env cfg content w" "records env (wc_key cfg) content old" "proto_faithful (we_pb env)"
    and "w_open w" "\<forall>e \<in> set (w_accepted w). encodable env (wc_key cfg) e"
  shows "\<exists>written. old @ w_accepted w = written @ w_pending w @ w_buffer w \<and>
     ReadAll (we_lib env) (we_pb env) (wc_key cfg) (stream w) = concat (map (recovered_list (we_lib env)) written) \<and>
     length (w_buffer w) \<le> 1000 \<and> length (w_out w) \<le> 262144 \<and>
     w_size w = of_nat (length (w_file w @ w_out w))"
proof -
  have inv: "wal_inv env cfg old w"
    using assms(1,2,4,5) by (rule wal_run_inv)
  then obtain written where "records env (wc_key cfg) (stream w) written"
    "old @ w_accepted w = written @ w_pending w @ w_buffer w"
    by (auto simp: wal_inv_def)
  with inv wal_run_chan [OF assms(1)] show ?thesis
    using records_read [OF assms(3)]
    by (intro exI [of _ written]) (auto simp: wal_inv_def chan_inv_def healthy_def bufferCap_def writerCap_def)
qed

theorem wal_accepts_in_order_witness:
  "\<exists>written. [stamp 9 (sample_entry (VInt 5))] =
     written @ w_pending (snd (Append sample_env 9 [WTick] (sample_entry (VInt 5)) (wal_New sample_cfg [])))
       @ w_buffer (snd (Append sample_env 9 [WTick] (sample_entry (VInt 5)) (wal_New sample_cfg [])))"
proof -
  let ?w = "snd (Append sample_env 9 [WTick] (sample_entry (VInt 5)) (wal_New sample_cfg []))"
  have w: "w_accepted ?w = [stamp 9 (sample_entry (VInt 5))]" "w_open ?w"
    by (simp_all add: Append_def Append_send_def wal_New_def bufferCap_def batch_tick_def)
  then show ?thesis
    using wal_accepts_in_order [OF run_Append [OF run_New] records_Nil _ w(2)] sample_encodable
    by (auto simp: sample_env_def)
qed

lemma batch_recv_closed:
  assumes "w_writer w = AtFirst" "w_bufferClosed w"
  shows "w_writer ((batch_recv env ^^ Suc (length (w_buffer w))) w) = Drained"
  using assms
proof (induction "w_buffer w" arbitrary: w)
  case Nil
  then show ?case
    by (simp add: batch_recv_def flip: Nil.hyps)
next
  case (Cons e es)
  let ?w = "batch_recv env w"
  note fl = frontD [OF core_flushBatch(2)] coreD [OF core_flushBatch(1)]
  have "es = w_buffer ?w" "w_writer ?w = AtFirst" "w_bufferClosed ?w"
    using Cons.prems by (simp_all add: batch_recv_def Let_def fl flip: Cons.hyps(2))
  from Cons.hyps(1) [OF this] this(1) show ?case
    by (simp add: funpow_swap1 flip: Cons.hyps(2))
qed

text \<open>C6: what \<^verbatim>\<open>Close\<close> makes durable. Take any run in which \<^verbatim>\<open>Close\<close> has begun, the file handle is open and
  every accepted entry can be encoded. When the last part of \<^verbatim>\<open>Close\<close> has run, every accepted entry
  except those still in the channel is in the rotated contents or in the file, the file is synced to
  the disk to its end, and decoding yields exactly those entries. Nothing is left in the channel when
  \<^verbatim>\<open>batchWriter\<close> returned because the channel was closed and empty; and if it is at its first
  \<^verbatim>\<open>select\<close> once the channel is closed, its next rounds take everything and it returns that way.\<close>
theorem wal_Close_durable:
  assumes "wal_run env cfg content w" "records env (wc_key cfg) content old" "proto_faithful (we_pb env)"
    and "w_open w" "\<forall>e \<in> set (w_accepted w). encodable env (wc_key cfg) e" "w_closed w"
  defines "w' \<equiv> wal_Close_finish env w"
  shows "\<exists>written. old @ w_accepted w = written @ w_buffer w \<and>
     w_pending w' = [] \<and> w_out w' = [] \<and> w_synced w' = length (w_file w') \<and>
     ReadAll (we_lib env) (we_pb env) (wc_key cfg) (concat (map snd (w_rotated w')) @ w_file w') =
       concat (map (recovered_list (we_lib env)) written) \<and>
     (w_writer w = Drained \<longrightarrow> w_buffer w = []) \<and>
     (w_writer w = AtFirst \<longrightarrow> w_writer ((batch_recv env ^^ Suc (length (w_buffer w))) w) = Drained)"
proof -
  have inv: "wal_inv env cfg old w"
    using assms(1,2,4,5) by (rule wal_run_inv)
  obtain u where u: "flushBatch env w = (None, u)" "wal_inv env cfg old u" "w_pending u = []"
    "w_buffer u = w_buffer w" "w_accepted u = w_accepted w"
    using flush_inv [OF inv] by metis
  then obtain written where written: "records env (wc_key cfg) (stream u) written"
    "old @ w_accepted w = written @ w_buffer w"
    by (auto simp: wal_inv_def)
  have "w' = u\<lparr>w_file := w_file u @ w_out u, w_out := [], w_synced := length (w_file u @ w_out u), w_open := False\<rparr>"
    using u(1) flush_then_sync(1) [OF u(2)] by (simp add: w'_def wal_Close_finish_def)
  moreover have "chan_inv w"
    using assms(1) by (rule wal_run_chan)
  ultimately show ?thesis
    using written u(3) records_read [OF assms(3) written(1)] batch_recv_closed [of w env] assms(6)
    by (intro exI [of _ written]) (auto simp: stream_def chan_inv_def simp del: funpow.simps)
qed

theorem wal_Close_durable_witness:
  "w_synced (wal_Close_finish sample_env (wal_Close_begin (wal_New sample_cfg []))) =
   length (w_file (wal_Close_finish sample_env (wal_Close_begin (wal_New sample_cfg []))))"
proof -
  have run: "wal_run sample_env sample_cfg [] (wal_Close_begin (wal_New sample_cfg []))"
    using run_step [OF run_New, of sample_env sample_cfg "[]" WClose] by simp
  have "proto_faithful (we_pb sample_env)"
    by (simp add: sample_env_def)
  moreover have "w_open (wal_Close_begin (wal_New sample_cfg []))" "w_closed (wal_Close_begin (wal_New sample_cfg []))"
    "\<forall>e \<in> set (w_accepted (wal_Close_begin (wal_New sample_cfg []))). encodable sample_env (wc_key sample_cfg) e"
    by (simp_all add: wal_Close_begin_def wal_New_def)
  ultimately show ?thesis
    using wal_Close_durable [OF run records_Nil] by blast
qed

text \<open>The other way out of \<^verbatim>\<open>batchWriter\<close> loses what is in the channel: an entry is accepted when the writer
  has found the channel empty, \<^verbatim>\<open>Close\<close> closes the channel and cancels the context, the writer takes
  the case of the context, and the last part of \<^verbatim>\<open>Close\<close> flushes only the pending batch. The same
  happens when the database cancels the context before it closes the log.\<close>
theorem wal_Close_loses_queued:
  "\<exists>w1 w2. Append env now [] e (batch_recv env (wal_New cfg [])) = (None, w1) \<and>
     w2 = wal_Close_finish env (batch_done env (wal_cancel (wal_Close_begin w1))) \<and>
     w_accepted w2 = [stamp now e] \<and> w_file w2 = [] \<and> w_pending w2 = [] \<and> w_rotated w2 = []"
proof -
  let ?w0 = "(wal_New cfg [])\<lparr>w_writer := AtSecond\<rparr>"
  let ?w1 = "?w0\<lparr>w_buffer := [stamp now e], w_accepted := [stamp now e]\<rparr>"
  let ?w2 = "?w1\<lparr>w_closed := True, w_bufferClosed := True, w_ctxDone := True, w_writer := Cancelled, w_open := False\<rparr>"
  have "batch_recv env (wal_New cfg []) = ?w0"
    by (simp add: batch_recv_def wal_New_def)
  moreover have "Append env now [] e ?w0 = (None, ?w1)"
    by (simp add: Append_def Append_send_def wal_New_def bufferCap_def)
  moreover have "wal_cancel (wal_Close_begin ?w1) = ?w1\<lparr>w_closed := True, w_bufferClosed := True, w_ctxDone := True\<rparr>"
    by (simp add: wal_cancel_def wal_Close_begin_def wal_New_def)
  moreover have "wal_Close_finish env (batch_done env (?w1\<lparr>w_closed := True, w_bufferClosed := True, w_ctxDone := True\<rparr>)) = ?w2"
    by (simp add: batch_done_def wal_Close_finish_def flushBatch_def bufio_Flush_def file_Sync_def wal_New_def)
  ultimately show ?thesis
    by (intro exI [of _ ?w1] exI [of _ ?w2]) (simp add: wal_New_def)
qed

text \<open>Once \<^verbatim>\<open>Close\<close> has begun, no later append is accepted, whatever else happens.\<close>
theorem wal_Close_final:
  assumes "w_closed w"
  shows "Append env now during e (foldl (wal_exec env) w ops) = (Some ErrWalClosed, foldl (wal_exec env) w ops)"
  using steps_core(3) [OF assms] by (simp add: Append_def)

theorem wal_Close_final_witness:
  "fst (Append sample_env 1 [] (sample_entry VNil)
     (foldl (wal_exec sample_env) (wal_Close_begin (wal_New sample_cfg [])) [WRecv, WFinish])) = Some ErrWalClosed"
  using wal_Close_final [of "wal_Close_begin (wal_New sample_cfg [])" sample_env 1 "[]" "sample_entry VNil" "[WRecv, WFinish]"]
  by (simp add: wal_Close_begin_def wal_New_def)

text \<open>After a successful \<^verbatim>\<open>Sync\<close> the writer is empty and every byte of the file is on the disk.\<close>
theorem wal_Sync_flushes:
  assumes "wal_run env cfg content w" "records env (wc_key cfg) content old" "\<not> w_closed w" "w_open w"
    and "\<forall>e \<in> set (w_accepted w). encodable env (wc_key cfg) e"
  shows "\<exists>w'. wal_Sync w = (None, w') \<and> w_out w' = [] \<and> w_file w' = w_file w @ w_out w \<and>
     w_synced w' = length (w_file w')"
proof -
  have "wal_inv env cfg old w"
    using assms(1,2,4,5) by (rule wal_run_inv)
  then show ?thesis
    using flush_sync_inv(1) [of env cfg old w] flush_then_sync(1) [of env cfg old w] assms(3)
    by (simp add: wal_Sync_def)
qed

theorem wal_Sync_flushes_witness:
  "\<exists>w'. wal_Sync (wal_New sample_cfg []) = (None, w') \<and> w_synced w' = length (w_file w')"
  using wal_Sync_flushes [OF run_New records_Nil, of sample_cfg] by (auto simp: wal_New_def)

text \<open>\<^verbatim>\<open>Sync\<close> does not write the pending batch: after an append whose entry the idle branch of
  \<^verbatim>\<open>batchWriter\<close> has taken, the channel is drained and \<^verbatim>\<open>Sync\<close> returns nil, but the file is empty.\<close>
theorem wal_Sync_misses_pending:
  "\<exists>w w'. w = batch_recv_idle env (snd (Append env now [] e (batch_recv env (wal_New cfg [])))) \<and>
     w_accepted w = [stamp now e] \<and> waitForBufferDrain [length (w_buffer w)] = None \<and>
     wal_Sync w = (None, w') \<and> w_file w' = [] \<and> w_synced w' = 0"
  by (simp add: Append_def Append_send_def wal_New_def bufferCap_def batch_recv_def batch_recv_idle_def wal_Sync_def
      bufio_Flush_def file_Sync_def)

text \<open>One entry that cannot be encoded takes the rest of its batch with it: \<^verbatim>\<open>flushBatch\<close> reports
  the error, but the entries behind it, all accepted, are in no buffer and no file any more.\<close>
theorem flushBatch_drops_batch:
  assumes "w_pending w = e # es"
    and "entry_frame (we_lib env) (we_pb env) (wc_key (w_cfg w)) (we_rnd env (w_draws w)) e = Inl err"
  shows "\<exists>w'. flushBatch env w = (Some err, w') \<and> w_pending w' = [] \<and> w_buffer w' = w_buffer w \<and>
     stream w' = stream w \<and> w_accepted w' = w_accepted w"
  using assms by (simp add: flushBatch_def writeEntry_def stream_def)

theorem flushBatch_drops_batch_witness:
  "\<exists>w'. flushBatch sample_env ((wal_New sample_cfg [])\<lparr>w_pending := [sample_entry (VSlice []), sample_entry (VInt 5)]\<rparr>) =
      (Some ErrSerialize, w') \<and> w_pending w' = []"
  using flushBatch_drops_batch [of "(wal_New sample_cfg [])\<lparr>w_pending := [sample_entry (VSlice []), sample_entry (VInt 5)]\<rparr>"
      "sample_entry (VSlice [])" "[sample_entry (VInt 5)]" sample_env ErrSerialize]
  by (auto simp: entry_frame_def entry_payload_def to_pb_def sample_entry_def sample_env_def sample_lib_def Let_def)

text \<open>C26: a rotation moves every record to a file that recovery does not read. In every state of a run in
  which the log is not closed, the file handle is open and every accepted entry can be encoded, a
  rotation that succeeds leaves nothing for \<^verbatim>\<open>ReadAll\<close> of the log's path; all entries accepted so far, but
  for those still in the channel, are in the rotated contents only. The content just rotated is in the
  file named after the second \<open>now\<close>, in the place of whatever an earlier rotation of the same second
  had left there; the other rotated files are as before.\<close>
theorem wal_rotate_hides_records:
  assumes "wal_run env cfg content w" "records env (wc_key cfg) content old" "proto_faithful (we_pb env)"
    and "\<not> w_closed w" "w_open w" "\<forall>e \<in> set (w_accepted w). encodable env (wc_key cfg) e"
  shows "\<exists>w' c. wal_rotate env now NoFault w = (None, w') \<and>
     ReadAll (we_lib env) (we_pb env) (wc_key cfg) (w_file w') = [] \<and>
     w_rotated w' = w_rotated w @ [(now, c)] \<and>
     (\<forall>n. gm_get (w_backups w') n = (if n = now then Some c else gm_get (w_backups w) n)) \<and>
     (\<exists>written. old @ w_accepted w' = written @ w_buffer w' \<and>
        ReadAll (we_lib env) (we_pb env) (wc_key cfg) (concat (map snd (w_rotated w'))) =
          concat (map (recovered_list (we_lib env)) written))"
proof -
  have inv: "wal_inv env cfg old w"
    using assms(1,2,5,6) by (rule wal_run_inv)
  obtain w1 where w1: "wal_inv env cfg old w1" "w_pending w1 = []" "w_backups w1 = w_backups w" "w_rotated w1 = w_rotated w"
    "wal_rotate env now NoFault w =
       (None, w1\<lparr>w_file := [], w_out := [], w_synced := 0, w_backups := gm_put now (w_file w1 @ w_out w1) (w_backups w1),
         w_rotated := w_rotated w1 @ [(now, w_file w1 @ w_out w1)], w_open := True, w_err := False, w_size := 0\<rparr>)"
    using rotate_inv [OF inv assms(4), of now NoFault] by metis
  then obtain written where "records env (wc_key cfg) (stream w1) written"
    "old @ w_accepted w1 = written @ w_buffer w1"
    by (auto simp: wal_inv_def)
  then show ?thesis
    using w1 records_read [OF assms(3)] records_read [OF assms(3) records_Nil] by (auto simp: stream_def)
qed

theorem wal_rotate_hides_records_witness:
  "\<exists>w' c. wal_rotate sample_env 7 NoFault (wal_New sample_cfg []) = (None, w') \<and> gm_get (w_backups w') 7 = Some c \<and>
     ReadAll sample_lib (we_pb sample_env) zero_key (w_file w') = []"
proof -
  have "proto_faithful (we_pb sample_env)" "\<not> w_closed (wal_New sample_cfg [])" "w_open (wal_New sample_cfg [])"
    "\<forall>e \<in> set (w_accepted (wal_New sample_cfg [])). encodable sample_env (wc_key sample_cfg) e"
    by (simp_all add: sample_env_def wal_New_def)
  from wal_rotate_hides_records [OF run_New records_Nil this, of 7] show ?thesis
    by (auto simp: sample_env_def sample_cfg_def)
qed

text \<open>What a closed file handle means: nothing but \<^verbatim>\<open>Truncate\<close> writes to the file again.\<close>

definition stuck :: "bytes \<Rightarrow> wal \<Rightarrow> bool" where
  "stuck c w \<longleftrightarrow> \<not> w_open w \<and> w_file w = c"

lemma stuck_file_write: "stuck c w \<Longrightarrow> stuck c (snd (file_write p w))"
  by (simp add: stuck_def file_write_def)

lemma stuck_bufio_Flush: "stuck c w \<Longrightarrow> stuck c (snd (bufio_Flush w))"
  by (auto simp: stuck_def bufio_Flush_def file_write_def)

lemma stuck_bufio_Write: "stuck c w \<Longrightarrow> stuck c (snd (bufio_Write p w))"
  by (auto simp: stuck_def bufio_Write_def bufio_Flush_def file_write_def Let_def)

lemma stuck_writeEntry:
  assumes "stuck c w"
  shows "stuck c (snd (writeEntry env e w))"
proof -
  let ?w = "w\<lparr>w_draws := Suc (w_draws w)\<rparr>"
  have w: "stuck c ?w"
    using assms by (simp add: stuck_def)
  show ?thesis
  proof (cases "entry_frame (we_lib env) (we_pb env) (wc_key (w_cfg w)) (we_rnd env (w_draws w)) e")
    case (Inl err)
    with w show ?thesis
      by (simp add: writeEntry_def)
  next
    case (Inr f)
    obtain r1 w1 where w1: "bufio_Write (take headerSize f) ?w = (r1, w1)"
      by fastforce
    obtain r2 w2 where w2: "bufio_Write (drop headerSize f) w1 = (r2, w2)"
      by fastforce
    have "stuck c w1" "stuck c w2"
      using stuck_bufio_Write [OF w, of "take headerSize f"] stuck_bufio_Write [of c w1 "drop headerSize f"] w1 w2
      by simp_all
    with Inr w1 w2 show ?thesis
      by (cases r1; cases r2) (simp_all add: writeEntry_def Let_def stuck_def)
  qed
qed

lemma stuck_write_batch: "stuck c w \<Longrightarrow> stuck c (snd (write_batch env es w))"
proof (induction es arbitrary: w)
  case Nil
  then show ?case by simp
next
  case (Cons e es)
  then show ?case
    using stuck_writeEntry [OF Cons.prems, of env e] by (auto split: prod.split option.split)
qed

lemma stuck_file_Sync: "stuck c w \<Longrightarrow> stuck c (snd (file_Sync w))"
  by (simp add: stuck_def file_Sync_def)

lemma stuck_flushBatch:
  assumes "stuck c w"
  shows "stuck c (snd (flushBatch env w))"
proof -
  obtain r1 w1 where w1: "write_batch env (w_pending w) (w\<lparr>w_pending := []\<rparr>) = (r1, w1)"
    by fastforce
  obtain r2 w2 where w2: "bufio_Flush w1 = (r2, w2)"
    by fastforce
  have "stuck c (w\<lparr>w_pending := []\<rparr>)"
    using assms by (simp add: stuck_def)
  then have "stuck c w1"
    using stuck_write_batch w1 by (metis snd_conv)
  moreover from this have "stuck c w2"
    using stuck_bufio_Flush w2 by (metis snd_conv)
  moreover from this have "stuck c (w2\<lparr>w_flushes := w_flushes w2 + 1\<rparr>)"
    by (simp add: stuck_def)
  ultimately show ?thesis
    using assms w1 w2 stuck_file_Sync
    by (cases r1; cases r2) (auto simp: flushBatch_def Let_def)
qed

datatype wal_call = CAppend "64 word" "wal_op list" wal_entry | CStep wal_op

fun wal_do :: "wal_env \<Rightarrow> wal \<Rightarrow> wal_call \<Rightarrow> wal" where
  "wal_do env w (CAppend now during e) = snd (Append env now during e w)"
| "wal_do env w (CStep op) = wal_exec env w op"

lemma stuck_upd [simp]:
  "stuck c (w\<lparr>w_buffer := b\<rparr>) = stuck c w" "stuck c (w\<lparr>w_pending := p\<rparr>) = stuck c w"
  "stuck c (w\<lparr>w_accepted := a\<rparr>) = stuck c w" "stuck c (w\<lparr>w_rotating := ro\<rparr>) = stuck c w"
  "stuck c (w\<lparr>w_closed := cl\<rparr>) = stuck c w" "stuck c (w\<lparr>w_bufferClosed := bc\<rparr>) = stuck c w"
  "stuck c (w\<lparr>w_writer := pc\<rparr>) = stuck c w" "stuck c (w\<lparr>w_ctxDone := ct\<rparr>) = stuck c w"
  "stuck c (w\<lparr>w_backups := ba\<rparr>) = stuck c w"
  by (simp_all add: stuck_def)

lemma stuck_recv:
  assumes "stuck c w"
  shows "stuck c (batch_recv env w)" "stuck c (batch_recv_idle env w)" "stuck c (batch_tick env w)" "stuck c (batch_done env w)"
  using assms stuck_flushBatch
  by (auto simp: batch_recv_def batch_recv_idle_def batch_tick_def batch_done_def Let_def split: list.split)

lemma stuck_rotate:
  assumes "stuck c w"
  shows "stuck c (snd (wal_rotate env now fault w))"
proof -
  obtain r1 w1 where w1: "flushBatch env w = (r1, w1)"
    by fastforce
  obtain r2 w2 where w2: "bufio_Flush w1 = (r2, w2)"
    by fastforce
  have "stuck c w1" "stuck c w2"
    using stuck_flushBatch [OF assms, of env] stuck_bufio_Flush [of c w1] w1 w2 by simp_all
  then show ?thesis
    using assms w1 w2 by (cases r1; cases r2) (auto simp: wal_rotate_def stuck_def)
qed

lemma stuck_exec: "stuck c w \<Longrightarrow> stuck c (wal_exec env w op)"
proof (cases op)
  case WSyncTick
  assume "stuck c w"
  then show ?thesis
    using WSyncTick stuck_bufio_Flush [of c w]
    by (auto simp: periodicSync_tick_def stuck_file_Sync split: prod.split option.split)
next
  case WSync
  assume "stuck c w"
  then show ?thesis
    using WSync stuck_bufio_Flush [of c w]
    by (auto simp: wal_Sync_def stuck_file_Sync split: prod.split option.split)
next
  case WFinish
  assume "stuck c w"
  then have "stuck c (snd (file_Sync (snd (bufio_Flush (snd (flushBatch env w))))))"
    by (intro stuck_file_Sync stuck_bufio_Flush stuck_flushBatch)
  then show ?thesis
    using WFinish \<open>stuck c w\<close> by (auto simp: wal_Close_finish_def stuck_def)
qed (simp_all add: stuck_recv periodicSync_done_def stuck_file_Sync stuck_bufio_Flush rotateWatcher_tick_def
      stuck_rotate remove_backup_def wal_Close_begin_def wal_cancel_def)

lemma stuck_do: "stuck c w \<Longrightarrow> stuck c (wal_do env w call)"
proof (cases call)
  case (CAppend now during e)
  assume "stuck c w"
  then have "stuck c (foldl (wal_exec env) w during)"
    by (induction during arbitrary: w) (simp_all add: stuck_exec)
  with CAppend \<open>stuck c w\<close> show ?thesis
    by (simp add: Append_def Append_send_def)
qed (simp add: stuck_exec)

text \<open>C27: when renaming the file fails during a rotation of a log that is open and whose accepted entries
  can be encoded, the log keeps its closed file handle: appends are still accepted, but no append,
  worker round, sync, further rotation or close ever writes a byte to the file again.\<close>
theorem failed_rotation_is_final:
  assumes "wal_run env cfg content w" "records env (wc_key cfg) content old" "\<not> w_closed w" "w_open w"
    and "\<forall>e \<in> set (w_accepted w). encodable env (wc_key cfg) e"
  shows "\<exists>w'. wal_rotate env now FaultRename w = (Some ErrIO, w') \<and>
     (length (w_buffer w') < 1000 \<and> \<not> w_bufferClosed w \<longrightarrow> fst (Append env t [] e w') = None) \<and>
     w_file (foldl (wal_do env) w' calls) = w_file w'"
proof -
  have inv: "wal_inv env cfg old w"
    using assms(1,2,4,5) by (rule wal_run_inv)
  obtain w1 where w1: "w_bufferClosed w1 = w_bufferClosed w" "w_closed w1 = w_closed w"
    "wal_rotate env now FaultRename w =
       (Some ErrIO, w1\<lparr>w_file := w_file w1 @ w_out w1, w_out := [], w_synced := length (w_file w1 @ w_out w1), w_open := False\<rparr>)"
    using rotate_inv [OF inv assms(3), of now FaultRename] by metis
  let ?w' = "w1\<lparr>w_file := w_file w1 @ w_out w1, w_out := [], w_synced := length (w_file w1 @ w_out w1), w_open := False\<rparr>"
  have "stuck (w_file ?w') (foldl (wal_do env) v calls)" if "stuck (w_file ?w') v" for v
    using that by (induction calls arbitrary: v) (simp_all add: stuck_do)
  then have "w_file (foldl (wal_do env) ?w' calls) = w_file ?w'"
    by (simp add: stuck_def)
  moreover have "fst (Append env t [] e ?w') = None" if "length (w_buffer ?w') < 1000" "\<not> w_bufferClosed w"
    using that w1(1,2) assms(3) by (simp add: Append_def Append_send_def bufferCap_def)
  ultimately show ?thesis
    using w1(3) by blast
qed

theorem failed_rotation_is_final_witness:
  "\<exists>w'. wal_rotate sample_env 7 FaultRename (wal_New sample_cfg []) = (Some ErrIO, w') \<and>
     w_file (foldl (wal_do sample_env) w' [CAppend 1 [] (sample_entry VNil), CStep WRecv, CStep WTick, CStep WClose]) = w_file w'"
  using failed_rotation_is_final [where env = sample_env and cfg = sample_cfg and now = 7 and t = 0 and
      e = "sample_entry VNil" and calls = "[CAppend 1 [] (sample_entry VNil), CStep WRecv, CStep WTick, CStep WClose]",
      OF run_New records_Nil]
  by (auto simp: wal_New_def)

text \<open>After \<^verbatim>\<open>CloseBuffer\<close>, which is meant to make appends fail fast, \<^verbatim>\<open>Append\<close> panics: it sends on
  the closed channel.\<close>
theorem CloseBuffer_Append_panics:
  "\<not> w_closed w \<Longrightarrow> Append env now [] e (CloseBuffer w) = (Some ErrPanic, CloseBuffer w)"
  by (simp add: CloseBuffer_def Append_def Append_send_def)

theorem CloseBuffer_Append_panics_witness:
  "fst (Append sample_env 1 [] (sample_entry VNil) (CloseBuffer (wal_New sample_cfg []))) = Some ErrPanic"
  using CloseBuffer_Append_panics [of "wal_New sample_cfg []"] by (simp add: wal_New_def)

section \<open>The log as its users see it\<close>

text \<open>What the database relies on: a successful append adds exactly the entry to the accepted ones, a
  failed append adds nothing. \<open>wal_bg\<close>: what goes on in the log while the database does not call it.\<close>

definition wal_bg :: "wal_env \<Rightarrow> wal \<Rightarrow> wal \<Rightarrow> bool" where
  "wal_bg env w w' \<longleftrightarrow> (\<exists>op. w' = wal_exec env w op)"

text \<open>The log as the database sees it: the accepted entries without their time stamps, for every clock and
  every schedule of the log's goroutines during an append.\<close>

definition Append_sched :: "wal_env \<Rightarrow> (wal \<Rightarrow> 64 word) \<Rightarrow> (wal \<Rightarrow> wal_op list) \<Rightarrow> wal_entry \<Rightarrow> wal \<Rightarrow>
    goerror option \<times> wal" where
  "Append_sched env clock during e w = Append env (clock w) (during w) e w"

definition unstamped :: "wal_entry \<Rightarrow> wal_entry" where
  "unstamped e = e\<lparr>e_time := 0\<rparr>"

definition accepted_log :: "wal \<Rightarrow> wal_entry list" where
  "accepted_log w = map unstamped (w_accepted w)"

lemma unstamped_stamp [simp]: "unstamped (stamp now e) = unstamped e"
  by (simp add: unstamped_def stamp_def)

lemma accepted_log_bg: "wal_bg env w w' \<Longrightarrow> accepted_log w' = accepted_log w"
  by (auto simp: wal_bg_def accepted_log_def wal_exec_core)

interpretation wal_log: append_log "Append_sched env clock during" accepted_log unstamped
  for env clock during
proof
  fix e w w' and err :: goerror
  note acc = Append_accepted [of env "clock w" "during w" e w]
  show "Append_sched env clock during e w = (None, w') \<Longrightarrow> accepted_log w' = accepted_log w @ [unstamped e]"
    using acc by (simp add: Append_sched_def accepted_log_def)
  show "Append_sched env clock during e w = (Some err, w') \<Longrightarrow> accepted_log w' = accepted_log w"
    using acc by (simp add: Append_sched_def accepted_log_def)
qed

end
