(* ===== verification/Index.thy ===== *)
theory Index
  imports Interfaces GoValue Keys
begin

text \<open>
  Secondary indexes, \<^verbatim>\<open>modules/index/manager.go\<close>.

  An index maps the formatted value of a field to the keys of the records that have it. The manager
  holds the indexes of every table. \<^verbatim>\<open>reflect.Copy\<close> panics on a 20 or 32 element array whose elements
  are not bytes, so formatting a value may end the program: \<^const>\<open>ErrPanic\<close>.
\<close>

type_synonym index = "(string, string list) gomap"

record manager =
  m_indexes :: "(string, (string, index) gomap) gomap"   \<comment> \<open>table, field\<close>

definition NewManager :: manager where
  "NewManager = \<lparr>m_indexes = []\<rparr>"

section \<open>Extracting and formatting a field\<close>

text \<open>Following pointers; \<^const>\<open>None\<close> when one of them is nil.\<close>

fun deref :: "goval \<Rightarrow> goval option" where
  "deref (VPtr t p) = (case p of None \<Rightarrow> None | Some v \<Rightarrow> deref v)"
| "deref v = Some v"

fun find_field :: "golib \<Rightarrow> string \<Rightarrow> (string \<times> string \<times> goval) list \<Rightarrow> goval option" where
  "find_field L field [] = None"
| "find_field L field ((name, tag, v) # fs) =
     (if tag \<noteq> [] \<and> takeWhile (\<lambda>c. c \<noteq> CHR '','') tag = field then Some v
      else if EqualFold L name field then Some v
      else find_field L field fs)"

definition extractFieldValue :: "golib \<Rightarrow> goval \<Rightarrow> string \<Rightarrow> goval option" where
  "extractFieldValue L obj field =
     (case obj of
        VNil \<Rightarrow> None
      | VMap m \<Rightarrow> gm_get m field
      | _ \<Rightarrow> (case deref obj of Some (VStruct t fs) \<Rightarrow> find_field L field fs | _ \<Rightarrow> None))"

fun array_bytes :: "goval list \<Rightarrow> bytes option" where
  "array_bytes [] = Some []"
| "array_bytes (VUint8 w # vs) = map_option (\<lambda>b. w # b) (array_bytes vs)"
| "array_bytes _ = None"

definition formatIndexValue :: "golib \<Rightarrow> goval \<Rightarrow> string res" where
  "formatIndexValue L val =
     (if val = VNil then Inr ''null''
      else (case deref val of
              None \<Rightarrow> Inr ''null''
            | Some v \<Rightarrow>
                (case lib_stringer L val of
                   Some s \<Rightarrow> Inr s
                 | None \<Rightarrow>
                     (case v of
                        VArray t es \<Rightarrow>
                          if length es = 20 \<or> length es = 32
                          then (case array_bytes es of
                                  None \<Rightarrow> Inl ErrPanic
                                | Some b \<Rightarrow> Inr (ToLower L (''0x'' @ string_of (encode b))))
                          else Inr (ToLower L (fmt_v L val))
                      | _ \<Rightarrow> Inr (ToLower L (fmt_v L val))))))"

section \<open>Operations\<close>

definition add_key :: "golib \<Rightarrow> string \<Rightarrow> string \<Rightarrow> goval \<Rightarrow> index \<Rightarrow> index res" where
  "add_key L field key value i =
     (case extractFieldValue L value field of
        None \<Rightarrow> Inr i
      | Some fv \<Rightarrow>
          (case formatIndexValue L fv of
             Inl e \<Rightarrow> Inl e
           | Inr s \<Rightarrow> Inr (gm_put s ((case gm_get i s of None \<Rightarrow> [] | Some ks \<Rightarrow> ks) @ [key]) i)))"

definition remove_key :: "golib \<Rightarrow> string \<Rightarrow> string \<Rightarrow> goval \<Rightarrow> index \<Rightarrow> index res" where
  "remove_key L field key value i =
     (case extractFieldValue L value field of
        None \<Rightarrow> Inr i
      | Some fv \<Rightarrow>
          (case formatIndexValue L fv of
             Inl e \<Rightarrow> Inl e
           | Inr s \<Rightarrow>
               Inr (case gm_get i s of
                      None \<Rightarrow> i
                    | Some ks \<Rightarrow>
                        (let ks' = remove1 key ks in if ks' = [] then gm_del s i else gm_put s ks' i))))"

text \<open>The loop of \<^verbatim>\<open>CreateIndex\<close> over the records of the table, in the order the map yields them.\<close>

fun add_all :: "golib \<Rightarrow> string \<Rightarrow> (string \<times> goval) list \<Rightarrow> index \<Rightarrow> index res" where
  "add_all L field [] i = Inr i"
| "add_all L field ((key, value) # kvs) i =
     (case add_key L field key value i of Inl e \<Rightarrow> Inl e | Inr i' \<Rightarrow> add_all L field kvs i')"

abbreviation table_indexes :: "manager \<Rightarrow> string \<Rightarrow> (string, index) gomap" where
  "table_indexes m table \<equiv> (case gm_get (m_indexes m) table of None \<Rightarrow> [] | Some fs \<Rightarrow> fs)"

definition find_index :: "manager \<Rightarrow> string \<Rightarrow> string \<Rightarrow> index option" where
  "find_index m table field = gm_get (table_indexes m table) field"

definition set_index :: "string \<Rightarrow> string \<Rightarrow> index \<Rightarrow> manager \<Rightarrow> manager" where
  "set_index table field i m =
     m\<lparr>m_indexes := gm_put table (gm_put field i (table_indexes m table)) (m_indexes m)\<rparr>"

definition CreateIndex :: "golib \<Rightarrow> string \<Rightarrow> string \<Rightarrow> (string \<times> goval) list \<Rightarrow> manager \<Rightarrow> manager res" where
  "CreateIndex L table field tableData m =
     (if find_index m table field \<noteq> None then Inr m
      else (case add_all L field tableData [] of
              Inl e \<Rightarrow> Inl e
            | Inr i \<Rightarrow> Inr (set_index table field i m)))"

definition Query :: "golib \<Rightarrow> string \<Rightarrow> string \<Rightarrow> goval \<Rightarrow> manager \<Rightarrow> string list res" where
  "Query L table field value m =
     (case gm_get (m_indexes m) table of
        None \<Rightarrow> Inl (ErrNoIndex table [])
      | Some fs \<Rightarrow>
          (case gm_get fs field of
             None \<Rightarrow> Inl (ErrNoIndex table field)
           | Some i \<Rightarrow>
               (case formatIndexValue L value of
                  Inl e \<Rightarrow> Inl e
                | Inr s \<Rightarrow> Inr (case gm_get i s of None \<Rightarrow> [] | Some ks \<Rightarrow> ks))))"

definition change_key :: "golib \<Rightarrow> string \<Rightarrow> string \<Rightarrow> goval \<Rightarrow> goval \<Rightarrow> index \<Rightarrow> index res" where
  "change_key L field key oldValue newValue i =
     (case (if oldValue \<noteq> VNil then remove_key L field key oldValue i else Inr i) of
        Inl e \<Rightarrow> Inl e
      | Inr i' \<Rightarrow> (if newValue \<noteq> VNil then add_key L field key newValue i' else Inr i'))"

definition UpdateIndex :: "golib \<Rightarrow> string \<Rightarrow> string \<Rightarrow> string \<Rightarrow> goval \<Rightarrow> goval \<Rightarrow> manager \<Rightarrow> manager res" where
  "UpdateIndex L table field key oldValue newValue m =
     (case find_index m table field of
        None \<Rightarrow> Inr m
      | Some i \<Rightarrow>
          (case change_key L field key oldValue newValue i of
             Inl e \<Rightarrow> Inl e | Inr i' \<Rightarrow> Inr (set_index table field i' m)))"

definition DeleteFromIndex :: "golib \<Rightarrow> string \<Rightarrow> string \<Rightarrow> string \<Rightarrow> goval \<Rightarrow> manager \<Rightarrow> manager res" where
  "DeleteFromIndex L table field key value m =
     (case find_index m table field of
        None \<Rightarrow> Inr m
      | Some i \<Rightarrow>
          (case remove_key L field key value i of
             Inl e \<Rightarrow> Inl e | Inr i' \<Rightarrow> Inr (set_index table field i' m)))"

definition DropIndex :: "string \<Rightarrow> string \<Rightarrow> manager \<Rightarrow> manager" where
  "DropIndex table field m =
     (case gm_get (m_indexes m) table of
        None \<Rightarrow> m
      | Some fs \<Rightarrow> m\<lparr>m_indexes := gm_put table (gm_del field fs) (m_indexes m)\<rparr>)"

definition index_GetStats :: "manager \<Rightarrow> nat \<times> nat" where
  "index_GetStats m =
     (sum_list (map (\<lambda>(t, fs). length fs) (m_indexes m)),
      sum_list (map (\<lambda>(t, fs). sum_list (map (\<lambda>(f, i). length i) fs)) (m_indexes m)))"

definition GetIndexedFields :: "string \<Rightarrow> manager \<Rightarrow> string list" where
  "GetIndexedFields table m = map fst (table_indexes m table)"

section \<open>What an index says\<close>

text \<open>The index entry of a record value: none when it has no such field.\<close>

definition index_key :: "golib \<Rightarrow> string \<Rightarrow> goval \<Rightarrow> string option res" where
  "index_key L field v =
     (case extractFieldValue L v field of
        None \<Rightarrow> Inr None
      | Some fv \<Rightarrow> (case formatIndexValue L fv of Inl e \<Rightarrow> Inl e | Inr s \<Rightarrow> Inr (Some s)))"

definition bucket :: "index \<Rightarrow> string \<Rightarrow> string list" where
  "bucket i s = (case gm_get i s of None \<Rightarrow> [] | Some ks \<Rightarrow> ks)"

definition tracks :: "golib \<Rightarrow> string \<Rightarrow> index \<Rightarrow> (string \<Rightarrow> goval option) \<Rightarrow> bool" where
  "tracks L field i d \<longleftrightarrow>
     gm_wf i \<and> (\<forall>s ks. gm_get i s = Some ks \<longrightarrow> ks \<noteq> []) \<and> (\<forall>s. distinct (bucket i s)) \<and>
     (\<forall>s k. k \<in> set (bucket i s) \<longleftrightarrow> (\<exists>v. d k = Some v \<and> index_key L field v = Inr (Some s)))"

lemma tracksD:
  assumes "tracks L field i d"
  shows "gm_wf i" "gm_get i s = Some ks \<Longrightarrow> ks \<noteq> []" "distinct (bucket i s)"
    "k \<in> set (bucket i s) \<longleftrightarrow> (\<exists>v. d k = Some v \<and> index_key L field v = Inr (Some s))"
  using assms by (auto simp: tracks_def)

lemma index_key_VNil [simp]: "index_key L field VNil = Inr None"
  by (simp add: index_key_def extractFieldValue_def)

lemma add_key_cases:
  assumes "add_key L field key v i = Inr i'"
  shows "(index_key L field v = Inr None \<and> i' = i) \<or>
    (\<exists>s. index_key L field v = Inr (Some s) \<and> i' = gm_put s (bucket i s @ [key]) i)"
  using assms by (auto simp: add_key_def index_key_def bucket_def split: option.splits sum.splits)

lemma remove_key_cases:
  assumes "remove_key L field key v i = Inr i'"
  shows "(index_key L field v = Inr None \<and> i' = i) \<or>
    (\<exists>s. index_key L field v = Inr (Some s) \<and>
       i' = (case gm_get i s of None \<Rightarrow> i
             | Some ks \<Rightarrow> if remove1 key ks = [] then gm_del s i else gm_put s (remove1 key ks) i))"
  using assms by (auto simp: remove_key_def index_key_def Let_def split: option.splits sum.splits)

lemma tracks_empty: "tracks L field [] (\<lambda>_. None)"
  by (simp add: tracks_def bucket_def)

text \<open>Adding a key that is not yet indexed, removing one.\<close>

lemma add_key_tracks:
  assumes t: "tracks L field i d" and add: "add_key L field key v i = Inr i'" and new: "d key = None"
  shows "tracks L field i' (d(key \<mapsto> v))"
  using add_key_cases [OF add]
proof (elim disjE exE conjE)
  assume none: "index_key L field v = Inr None" and "i' = i"
  then show ?thesis
    using t new by (auto simp: tracks_def)
next
  fix s
  assume s: "index_key L field v = Inr (Some s)" and i': "i' = gm_put s (bucket i s @ [key]) i"
  have b: "bucket i' s' = (if s' = s then bucket i s @ [key] else bucket i s')" for s'
    by (simp add: bucket_def i')
  have "key \<notin> set (bucket i s)"
    using tracksD(4) [OF t] new by simp
  then have "distinct (bucket i' s')" for s'
    using tracksD(3) [OF t] b by simp
  moreover have "gm_wf i'" "\<And>s' ks. gm_get i' s' = Some ks \<Longrightarrow> ks \<noteq> []"
    using tracksD(1,2) [OF t] i' by (auto split: if_splits)
  moreover have "k \<in> set (bucket i' s') \<longleftrightarrow> (\<exists>u. (d(key \<mapsto> v)) k = Some u \<and> index_key L field u = Inr (Some s'))" for k s'
    using tracksD(4) [OF t] new s b by auto
  ultimately show ?thesis
    by (simp add: tracks_def)
qed

lemma remove_key_tracks:
  assumes t: "tracks L field i d" and rem: "remove_key L field key v i = Inr i'" and old: "d key = Some v"
  shows "tracks L field i' (d(key := None))"
  using remove_key_cases [OF rem]
proof (elim disjE exE conjE)
  assume "index_key L field v = Inr None" and "i' = i"
  then show ?thesis
    using t old by (auto simp: tracks_def)
next
  fix s
  assume s: "index_key L field v = Inr (Some s)" and i': "i' = (case gm_get i s of None \<Rightarrow> i
    | Some ks \<Rightarrow> if remove1 key ks = [] then gm_del s i else gm_put s (remove1 key ks) i)"
  have b: "bucket i' s' = (if s' = s then remove1 key (bucket i s) else bucket i s')" for s'
    by (auto simp: bucket_def i' split: option.splits)
  have "gm_wf i'" "\<And>s' ks. gm_get i' s' = Some ks \<Longrightarrow> ks \<noteq> []"
    using tracksD(1,2) [OF t] i' by (auto split: if_splits option.splits)
  moreover have "distinct (bucket i' s')" for s'
    using tracksD(3) [OF t] b by simp
  moreover have "k \<in> set (bucket i' s') \<longleftrightarrow> (\<exists>u. (d(key := None)) k = Some u \<and> index_key L field u = Inr (Some s'))" for k s'
    using tracksD(3,4) [OF t] old s b by (auto simp: set_remove1_distinct)
  ultimately show ?thesis
    by (simp add: tracks_def)
qed

lemma tracks_upd_VNil: "tracks L field i (d(k \<mapsto> VNil)) = tracks L field i (d(k := None))"
proof -
  have "(\<exists>v. (d(k \<mapsto> VNil)) k' = Some v \<and> index_key L field v = Inr (Some s)) =
      (\<exists>v. (d(k := None)) k' = Some v \<and> index_key L field v = Inr (Some s))" for k' s
    by auto
  then show ?thesis
    by (simp add: tracks_def)
qed

lemma change_key_tracks:
  assumes t: "tracks L field i d"
    and ch: "change_key L field key (case d key of None \<Rightarrow> VNil | Some v \<Rightarrow> v) new i = Inr i'"
  shows "tracks L field i' (d(key \<mapsto> new))"
proof -
  let ?old = "case d key of None \<Rightarrow> VNil | Some v \<Rightarrow> v"
  obtain i1 where i1: "(if ?old \<noteq> VNil then remove_key L field key ?old i else Inr i) = Inr i1"
    and i': "(if new \<noteq> VNil then add_key L field key new i1 else Inr i1) = Inr i'"
    using ch by (auto simp: change_key_def split: sum.splits)
  have t1: "tracks L field i1 (d(key := None))"
  proof (cases "?old = VNil")
    case True
    then have "d key = None \<or> d key = Some VNil"
      by (auto split: option.splits)
    then have "tracks L field i (d(key := None))"
      using t tracks_upd_VNil [of L field i d key] by (metis fun_upd_idem)
    with True i1 show ?thesis by simp
  next
    case False
    then have "d key = Some ?old"
      by (auto split: option.splits)
    with False i1 t show ?thesis
      using remove_key_tracks by simp
  qed
  show ?thesis
  proof (cases "new = VNil")
    case True
    with t1 i' show ?thesis
      by (simp add: tracks_upd_VNil)
  next
    case False
    with t1 i' add_key_tracks [of L field i1 "d(key := None)" key new i'] show ?thesis
      by simp
  qed
qed

lemma add_all_tracks:
  "tracks L field i d \<Longrightarrow> distinct (map fst kvs) \<Longrightarrow> \<forall>k \<in> set (map fst kvs). d k = None \<Longrightarrow>
   add_all L field kvs i = Inr i' \<Longrightarrow> tracks L field i' (d ++ map_of kvs)"
proof (induction kvs arbitrary: i d)
  case Nil
  then show ?case by simp
next
  case (Cons p kvs)
  obtain k v where p: "p = (k, v)"
    by (cases p)
  with Cons.prems(4) obtain i1 where i1: "add_key L field k v i = Inr i1" "add_all L field kvs i1 = Inr i'"
    by (auto split: sum.splits)
  have k: "k \<notin> fst ` set kvs"
    using Cons.prems(2) p by simp
  have "tracks L field i1 (d(k \<mapsto> v))"
    using add_key_tracks [OF Cons.prems(1) i1(1)] Cons.prems(3) p by simp
  moreover have "distinct (map fst kvs)" and "\<forall>k' \<in> set (map fst kvs). (d(k \<mapsto> v)) k' = None"
    using Cons.prems(2,3) p k by auto
  ultimately have "tracks L field i' (d(k \<mapsto> v) ++ map_of kvs)"
    using Cons.IH i1(2) by blast
  then show ?case
    using p k by (simp add: map_add_upd_left dom_map_of_conv_image_fst del: fun_upd_apply)
qed

interpretation field_index: table_index "\<lambda>kvs. add_all L field kvs []" "change_key L field" VNil "tracks L field"
  for L field
proof unfold_locales
  show "tracks L field i (map_of kvs)" if "distinct (map fst kvs)" "add_all L field kvs [] = Inr i"
    for kvs :: "(string \<times> goval) list" and i
    using add_all_tracks [OF tracks_empty] that by simp
  show "tracks L field i' (m(k \<mapsto> new))"
    if "tracks L field i m" "change_key L field k (case m k of None \<Rightarrow> VNil | Some v \<Rightarrow> v) new i = Inr i'"
    for i m k new i'
    using that by (rule change_key_tracks)
  show "tracks L field i' (m(k := None))"
    if "tracks L field i m" "change_key L field k (case m k of None \<Rightarrow> VNil | Some v \<Rightarrow> v) VNil i = Inr i'"
    for i m k i'
    using change_key_tracks [OF that] by (simp add: tracks_upd_VNil)
qed

section \<open>The manager\<close>

text \<open>Every index describes its table; \<open>D\<close> gives the records of the tables.\<close>

definition indexes_ok :: "golib \<Rightarrow> manager \<Rightarrow> (string \<Rightarrow> string \<Rightarrow> goval option) \<Rightarrow> bool" where
  "indexes_ok L m D \<longleftrightarrow> (\<forall>t f i. find_index m t f = Some i \<longrightarrow> tracks L f i (D t))"

lemma find_set_index [simp]:
  "find_index (set_index t f i m) t' f' = (if t' = t \<and> f' = f then Some i else find_index m t' f')"
  by (auto simp: find_index_def set_index_def split: option.splits)

lemma find_NewManager [simp]: "find_index NewManager t f = None"
  by (simp add: find_index_def NewManager_def)

lemma indexes_ok_New [simp]: "indexes_ok L NewManager D"
  by (simp add: indexes_ok_def)

lemma CreateIndex_ok:
  assumes "indexes_ok L m D" "distinct (map fst kvs)" "D table = map_of kvs"
    and "CreateIndex L table field kvs m = Inr m'"
  shows "indexes_ok L m' D" "find_index m' table field \<noteq> None"
proof -
  have "indexes_ok L m' D \<and> find_index m' table field \<noteq> None"
  proof (cases "find_index m table field = None")
    case False
    with assms show ?thesis
      by (simp add: CreateIndex_def)
  next
    case True
    then obtain i where i: "add_all L field kvs [] = Inr i" "m' = set_index table field i m"
      using assms(4) by (auto simp: CreateIndex_def split: sum.splits)
    have "tracks L field i (D table)"
      using field_index.build_tracks [OF assms(2) i(1)] assms(3) by simp
    with assms(1) i(2) show ?thesis
      by (auto simp: indexes_ok_def)
  qed
  then show "indexes_ok L m' D" "find_index m' table field \<noteq> None"
    by simp_all
qed

lemma Query_tracked:
  assumes "find_index m table field = Some i" "formatIndexValue L value = Inr s"
  shows "Query L table field value m = Inr (bucket i s)"
  using assms by (auto simp: Query_def find_index_def bucket_def split: option.splits)

definition sample_person :: "string \<Rightarrow> goval" where
  "sample_person n = VMap [(''name'', VString n)]"

lemma format_string: "lib_stringer L (VString s) = None \<Longrightarrow> formatIndexValue L (VString s) = Inr (ToLower L s)"
  by (simp add: formatIndexValue_def fmt_v.simps)

lemma sample_stringer [simp]: "lib_stringer sample_lib v = None"
  by (simp add: sample_lib_def)

lemma sample_key: "index_key sample_lib ''name'' (sample_person n) = Inr (Some (ToLower sample_lib n))"
  by (simp add: index_key_def extractFieldValue_def sample_person_def format_string)

lemma sample_lower:
  "ToLower sample_lib ''Bob'' = ''bob''" "ToLower sample_lib ''BOB'' = ''bob''" "ToLower sample_lib ''ann'' = ''ann''"
  by (simp_all add: ToLower_def ascii_def lower_char_def char_of_def bit_0)

lemma sample_created:
  "CreateIndex sample_lib ''t'' ''name'' [(''k1'', sample_person ''Bob''), (''k2'', sample_person ''ann'')] NewManager =
     Inr \<lparr>m_indexes = [(''t'', [(''name'', [(''bob'', [''k1'']), (''ann'', [''k2''])])])]\<rparr>"
  by (simp add: CreateIndex_def add_key_def extractFieldValue_def sample_person_def format_string
      find_index_def set_index_def NewManager_def sample_lower)

text \<open>Index lookups ignore the type and the case of the value: an integer and its decimal string
  share a bucket, and so do strings that differ only in letter case.\<close>
theorem Query_ignores_type_and_case:
  assumes "lib_stringer L (VInt w) = None" "\<And>s. lib_stringer L (VString s) = None"
    and "ascii s" "ascii t" "map lower_char s = map lower_char t"
  shows "Query L table field (VInt w) m = Query L table field (VString (dec_int (sint w))) m \<and>
    Query L table field (VString s) m = Query L table field (VString t) m"
proof -
  have same: "Query L table field u m = Query L table field v m"
    if "formatIndexValue L u = formatIndexValue L v" for u v
    using that by (simp add: Query_def cong: option.case_cong)
  have "formatIndexValue L (VInt w) = formatIndexValue L (VString (dec_int (sint w)))"
    using assms(1,2) by (simp add: formatIndexValue_def fmt_v.simps)
  moreover have "formatIndexValue L (VString s) = formatIndexValue L (VString t)"
    using assms(2-5) by (simp add: format_string ToLower_def)
  ultimately show ?thesis
    using same by blast
qed

theorem Query_ignores_type_and_case_witness:
  "Query sample_lib ''t'' ''f'' (VInt 30) NewManager = Query sample_lib ''t'' ''f'' (VString (dec_int (sint (30 :: 64 word)))) NewManager \<and>
   Query sample_lib ''t'' ''f'' (VString ''aB'') NewManager = Query sample_lib ''t'' ''f'' (VString ''Ab'') NewManager"
  by (rule Query_ignores_type_and_case) (simp_all add: ascii_def lower_char_def char_of_def bit_0)

end
