(* ===== verification/Tx.thy ===== *)
theory Tx
  imports GoValue
begin

text \<open>
  Transactions, \<^verbatim>\<open>modules/tx/manager.go\<close>.

  A transaction is an object that the client, the manager and the database share by pointer, so
  \<open>txs\<close> keeps a store: the transaction at address \<open>a\<close> is the \<open>a\<close>-th of \<open>tx_store\<close>. The manager's
  \<^verbatim>\<open>sync.Map\<close> maps identifiers to addresses; its counters keep their widths.
\<close>

type_synonym tables = "(string, (string, goval) gomap) gomap"

record transaction =
  tx_ID :: string
  tx_Snapshot :: tables
  tx_Changes :: tables
  tx_Committed :: bool
  tx_Aborted :: bool
  tx_snapshotVersion :: "64 word"

record txs =
  tx_store :: "transaction list"
  tx_transactions :: "(string, nat) gomap"
  tx_counter :: "64 word"
  tx_active :: "32 word"
  tx_committed :: "64 word"
  tx_aborted :: "64 word"

definition tx_NewManager :: txs where
  "tx_NewManager =
     \<lparr>tx_store = [], tx_transactions = [], tx_counter = 0, tx_active = 0, tx_committed = 0, tx_aborted = 0\<rparr>"

definition tx_id :: "int \<Rightarrow> 64 word \<Rightarrow> string" where
  "tx_id now n = ''tx_'' @ dec_int now @ ''_'' @ dec_nat (unat n)"

text \<open>\<^verbatim>\<open>Begin\<close> at the time \<open>now\<close> in nanoseconds; the result is the address of the new transaction.\<close>

definition Begin :: "int \<Rightarrow> tables \<Rightarrow> txs \<Rightarrow> nat \<times> txs" where
  "Begin now snapshot m =
     (let n = tx_counter m + 1; a = length (tx_store m); id = tx_id now n;
          t = \<lparr>tx_ID = id, tx_Snapshot = snapshot, tx_Changes = [], tx_Committed = False,
               tx_Aborted = False, tx_snapshotVersion = 0\<rparr>
      in (a, m\<lparr>tx_store := tx_store m @ [t], tx_transactions := gm_put id a (tx_transactions m),
               tx_counter := n, tx_active := tx_active m + 1\<rparr>))"

definition Commit :: "nat \<Rightarrow> txs \<Rightarrow> tables res \<times> txs" where
  "Commit a m =
     (let t = tx_store m ! a in
      if tx_Committed t \<or> tx_Aborted t then (Inl ErrTxFinalized, m)
      else (Inr (tx_Changes t),
            m\<lparr>tx_store := (tx_store m)[a := t\<lparr>tx_Committed := True\<rparr>],
              tx_transactions := gm_del (tx_ID t) (tx_transactions m),
              tx_active := tx_active m - 1, tx_committed := tx_committed m + 1\<rparr>))"

definition Rollback :: "nat \<Rightarrow> txs \<Rightarrow> goerror option \<times> txs" where
  "Rollback a m =
     (let t = tx_store m ! a in
      if tx_Committed t \<or> tx_Aborted t then (Some ErrTxFinalized, m)
      else (None,
            m\<lparr>tx_store := (tx_store m)[a := t\<lparr>tx_Aborted := True\<rparr>],
              tx_transactions := gm_del (tx_ID t) (tx_transactions m),
              tx_active := tx_active m - 1, tx_aborted := tx_aborted m + 1\<rparr>))"

definition set_change :: "string \<Rightarrow> string \<Rightarrow> goval \<Rightarrow> transaction \<Rightarrow> transaction" where
  "set_change table key value t =
     (let c = (if gm_get (tx_Changes t) table = None then gm_put table [] (tx_Changes t) else tx_Changes t)
      in t\<lparr>tx_Changes := gm_put table (gm_put key value (the (gm_get c table))) c\<rparr>)"

definition tx_Write :: "nat \<Rightarrow> string \<Rightarrow> string \<Rightarrow> goval \<Rightarrow> txs \<Rightarrow> goerror option \<times> txs" where
  "tx_Write a table key value m =
     (let t = tx_store m ! a in
      if tx_Committed t \<or> tx_Aborted t then (Some ErrTxFinalized, m)
      else (None, m\<lparr>tx_store := (tx_store m)[a := set_change table key value t]\<rparr>))"

definition tx_Delete :: "nat \<Rightarrow> string \<Rightarrow> string \<Rightarrow> txs \<Rightarrow> goerror option \<times> txs" where
  "tx_Delete a table key m =
     (let t = tx_store m ! a in
      if tx_Committed t \<or> tx_Aborted t then (Some ErrTxFinalized, m)
      else (None, m\<lparr>tx_store := (tx_store m)[a := set_change table key VNil t]\<rparr>))"

definition SnapshotVersion :: "nat \<Rightarrow> txs \<Rightarrow> 64 word" where
  "SnapshotVersion a m = tx_snapshotVersion (tx_store m ! a)"

definition SetSnapshotVersion :: "nat \<Rightarrow> 64 word \<Rightarrow> txs \<Rightarrow> txs" where
  "SetSnapshotVersion a v m =
     m\<lparr>tx_store := (tx_store m)[a := (tx_store m ! a)\<lparr>tx_snapshotVersion := v\<rparr>]\<rparr>"

definition tx_GetStats :: "txs \<Rightarrow> 32 word \<times> 64 word \<times> 64 word" where
  "tx_GetStats m = (tx_active m, tx_committed m, tx_aborted m)"

section \<open>Reachable managers\<close>

inductive tx_step :: "txs \<Rightarrow> txs \<Rightarrow> bool" where
  tx_begin: "tx_step m (snd (Begin now snapshot m))"
| tx_commit: "a < length (tx_store m) \<Longrightarrow> tx_step m (snd (Commit a m))"
| tx_rollback: "a < length (tx_store m) \<Longrightarrow> tx_step m (snd (Rollback a m))"
| tx_write: "a < length (tx_store m) \<Longrightarrow> tx_step m (snd (tx_Write a table key value m))"
| tx_delete: "a < length (tx_store m) \<Longrightarrow> tx_step m (snd (tx_Delete a table key m))"
| tx_version: "a < length (tx_store m) \<Longrightarrow> tx_step m (SetSnapshotVersion a v m)"

inductive tx_reach :: "txs \<Rightarrow> bool" where
  tx_new: "tx_reach tx_NewManager"
| tx_more: "tx_reach m \<Longrightarrow> tx_step m m' \<Longrightarrow> tx_reach m'"

inductive_cases tx_stepE: "tx_step m m'"

definition live :: "transaction \<Rightarrow> bool" where
  "live t \<longleftrightarrow> \<not> tx_Committed t \<and> \<not> tx_Aborted t"

definition count :: "('a \<Rightarrow> bool) \<Rightarrow> 'a list \<Rightarrow> nat" where
  "count P xs = length (filter P xs)"

lemma count_update:
  "a < length xs \<Longrightarrow> count P (xs[a := y]) + (if P (xs ! a) then 1 else 0) = count P xs + (if P y then 1 else 0)"
proof (induction xs arbitrary: a)
  case Nil
  then show ?case by simp
next
  case (Cons x xs)
  then show ?case
    by (cases a) (auto simp: count_def)
qed

lemma count_snoc [simp]: "count P (xs @ [x]) = count P xs + (if P x then 1 else 0)"
  by (simp add: count_def)

lemma count_Nil [simp]: "count P [] = 0"
  by (simp add: count_def)

definition numbered :: "nat \<Rightarrow> transaction \<Rightarrow> bool" where
  "numbered n t \<longleftrightarrow> (\<exists>now. tx_ID t = tx_id now (of_nat (Suc n)))"

definition tx_inv :: "txs \<Rightarrow> bool" where
  "tx_inv m \<longleftrightarrow>
     gm_wf (tx_transactions m) \<and>
     (\<forall>a < length (tx_store m). \<not> (tx_Committed (tx_store m ! a) \<and> tx_Aborted (tx_store m ! a))) \<and>
     (\<forall>a < length (tx_store m). numbered a (tx_store m ! a)) \<and>
     (\<forall>id a. gm_get (tx_transactions m) id = Some a \<longleftrightarrow>
        a < length (tx_store m) \<and> tx_ID (tx_store m ! a) = id \<and> live (tx_store m ! a)) \<and>
     tx_counter m = of_nat (length (tx_store m)) \<and>
     tx_active m = of_nat (count live (tx_store m)) \<and>
     tx_committed m = of_nat (count tx_Committed (tx_store m)) \<and>
     tx_aborted m = of_nat (count tx_Aborted (tx_store m))"

lemma tx_invD:
  assumes "tx_inv m"
  shows "gm_wf (tx_transactions m)"
    and "a < length (tx_store m) \<Longrightarrow> \<not> (tx_Committed (tx_store m ! a) \<and> tx_Aborted (tx_store m ! a))"
    and "a < length (tx_store m) \<Longrightarrow> numbered a (tx_store m ! a)"
    and "gm_get (tx_transactions m) i = Some a \<longleftrightarrow>
        a < length (tx_store m) \<and> tx_ID (tx_store m ! a) = i \<and> live (tx_store m ! a)"
    and "tx_counter m = of_nat (length (tx_store m))"
    and "tx_active m = of_nat (count live (tx_store m))"
    and "tx_committed m = of_nat (count tx_Committed (tx_store m))"
    and "tx_aborted m = of_nat (count tx_Aborted (tx_store m))"
  using assms unfolding tx_inv_def by blast+

text \<open>The counter at the end of an identifier.\<close>

lemma digit_char_not_underscore: "d < 10 \<Longrightarrow> digit_char d \<noteq> CHR ''_''"
proof -
  assume "d < 10"
  then have "d \<in> {0, 1, 2, 3, 4, 5, 6, 7, 8, 9}"
    by auto
  then show ?thesis
    by (auto simp: digit_char_def char_of_def bit_0)
qed

lemma dec_nat_no_underscore: "CHR ''_'' \<notin> set (dec_nat n)"
proof (induction n rule: dec_nat.induct)
  case (1 n)
  have "CHR ''_'' \<noteq> digit_char (n mod 10)"
    using digit_char_not_underscore [of "n mod 10"] by simp
  with 1 show ?case
    using digit_char_not_underscore [of n] by (subst dec_nat.simps) auto
qed

lemma dec_nat_inject: "dec_nat a = dec_nat b \<Longrightarrow> a = b"
  using parse_dec_nat by (metis option.inject)

lemma tx_id_counter: "tx_id now n = tx_id now' n' \<Longrightarrow> n = n'"
proof -
  assume eq: "tx_id now n = tx_id now' n'"
  have "takeWhile (\<lambda>c. c \<noteq> CHR ''_'') (rev (tx_id now n)) = rev (dec_nat (unat n))" for now n
    using dec_nat_no_underscore [of "unat n"]
    by (simp add: tx_id_def takeWhile_append takeWhile_eq_all_conv)
  then have "dec_nat (unat n) = dec_nat (unat n')"
    using eq by (metis rev_rev_ident)
  then show "n = n'"
    using dec_nat_inject by (metis word_unat_eq_iff)
qed

lemma numbered_inject:
  assumes "numbered a t" "numbered b u" "tx_ID t = tx_ID u" "Suc a < 2 ^ 64" "Suc b < 2 ^ 64"
  shows "a = b"
proof -
  have "(of_nat (Suc a) :: 64 word) = of_nat (Suc b)"
    using assms(1-3) tx_id_counter by (metis numbered_def)
  then have "unat (of_nat (Suc a) :: 64 word) = unat (of_nat (Suc b) :: 64 word)"
    by simp
  then show ?thesis
    using assms(4,5) by (simp add: unat_of_nat del: of_nat_Suc)
qed

text \<open>What a step that only changes the transaction at \<open>a\<close> has to respect.\<close>

lemma tx_inv_change:
  assumes inv: "tx_inv m" and a: "a < length (tx_store m)" and t': "tx_ID t' = tx_ID (tx_store m ! a)"
    "tx_Committed t' = tx_Committed (tx_store m ! a)" "tx_Aborted t' = tx_Aborted (tx_store m ! a)"
  shows "tx_inv (m\<lparr>tx_store := (tx_store m)[a := t']\<rparr>)"
proof -
  have live: "live t' = live (tx_store m ! a)"
    using t' by (simp add: live_def)
  have "count live ((tx_store m)[a := t']) = count live (tx_store m)"
    "count tx_Committed ((tx_store m)[a := t']) = count tx_Committed (tx_store m)"
    "count tx_Aborted ((tx_store m)[a := t']) = count tx_Aborted (tx_store m)"
    using count_update [OF a, of live t'] count_update [OF a, of tx_Committed t']
      count_update [OF a, of tx_Aborted t'] live t' by (simp_all split: if_splits)
  moreover have "numbered b ((tx_store m)[a := t'] ! b)" if "b < length (tx_store m)" for b
    using tx_invD(3) [OF inv that] t'(1) by (cases "b = a") (simp_all add: numbered_def a)
  moreover have "gm_get (tx_transactions m) id = Some b \<longleftrightarrow>
      b < length (tx_store m) \<and> tx_ID ((tx_store m)[a := t'] ! b) = id \<and> live ((tx_store m)[a := t'] ! b)" for id b
    using tx_invD(4) [OF inv] t' live a by (cases "b = a") simp_all
  moreover have "\<not> (tx_Committed ((tx_store m)[a := t'] ! b) \<and> tx_Aborted ((tx_store m)[a := t'] ! b))"
    if "b < length (tx_store m)" for b
    using tx_invD(2) [OF inv that] t' a by (cases "b = a") simp_all
  ultimately show ?thesis
    using tx_invD [OF inv] by (simp add: tx_inv_def)
qed

text \<open>Finishing the transaction at \<open>a\<close>.\<close>

lemma tx_inv_finish:
  assumes inv: "tx_inv m" and bound: "length (tx_store m) < 2 ^ 64 - 1"
    and a: "a < length (tx_store m)" and l: "live (tx_store m ! a)"
    and t': "tx_ID t' = tx_ID (tx_store m ! a)" "tx_Committed t' \<noteq> tx_Aborted t'"
  shows "tx_inv (m\<lparr>tx_store := (tx_store m)[a := t'], tx_transactions := gm_del (tx_ID t') (tx_transactions m),
      tx_active := tx_active m - 1,
      tx_committed := tx_committed m + (if tx_Committed t' then 1 else 0),
      tx_aborted := tx_aborted m + (if tx_Aborted t' then 1 else 0)\<rparr>)"
proof -
  let ?s = "(tx_store m)[a := t']"
  have nl: "\<not> live t'" and na: "\<not> tx_Committed (tx_store m ! a)" "\<not> tx_Aborted (tx_store m ! a)"
    using t'(2) l by (auto simp: live_def)
  have "count live (tx_store m) = Suc (count live ?s)"
    using count_update [OF a, of live t'] l nl by simp
  moreover have "count tx_Committed ?s = count tx_Committed (tx_store m) + (if tx_Committed t' then 1 else 0)"
    "count tx_Aborted ?s = count tx_Aborted (tx_store m) + (if tx_Aborted t' then 1 else 0)"
    using count_update [OF a, of tx_Committed t'] count_update [OF a, of tx_Aborted t'] na by simp_all
  moreover have "numbered b (?s ! b)" if "b < length (tx_store m)" for b
    using tx_invD(3) [OF inv that] t'(1) by (cases "b = a") (simp_all add: numbered_def a)
  moreover have "gm_get (gm_del (tx_ID t') (tx_transactions m)) id = Some b \<longleftrightarrow>
      b < length (tx_store m) \<and> tx_ID (?s ! b) = id \<and> live (?s ! b)" for id b
  proof (cases "b = a")
    case True
    then show ?thesis
      using tx_invD(4) [OF inv] nl a t'(1) by simp
  next
    case False
    have "tx_ID (tx_store m ! b) \<noteq> tx_ID t'" if "b < length (tx_store m)"
      using numbered_inject [OF tx_invD(3) [OF inv that] tx_invD(3) [OF inv a]] False that a bound t'(1)
      by auto
    with False show ?thesis
      using tx_invD(4) [OF inv, of id b] by auto
  qed
  moreover have "\<not> (tx_Committed (?s ! b) \<and> tx_Aborted (?s ! b))" if "b < length (tx_store m)" for b
    using tx_invD(2) [OF inv that] t'(2) a by (cases "b = a") auto
  ultimately show ?thesis
    using tx_invD [OF inv] by (simp add: tx_inv_def)
qed

lemma tx_inv_Begin:
  assumes inv: "tx_inv m" and bound: "length (tx_store m) < 2 ^ 64 - 1"
  shows "tx_inv (snd (Begin now snapshot m))"
proof -
  let ?n = "of_nat (length (tx_store m)) + 1 :: 64 word"
  let ?t = "\<lparr>tx_ID = tx_id now ?n, tx_Snapshot = snapshot, tx_Changes = [], tx_Committed = False,
    tx_Aborted = False, tx_snapshotVersion = 0\<rparr>"
  let ?s = "tx_store m @ [?t]"
  have num: "numbered (length (tx_store m)) ?t"
    by (auto simp: numbered_def add.commute)
  have "gm_get (gm_put (tx_id now ?n) (length (tx_store m)) (tx_transactions m)) id = Some b \<longleftrightarrow>
      b < length ?s \<and> tx_ID (?s ! b) = id \<and> live (?s ! b)" for id b
  proof (cases "b = length (tx_store m)")
    case True
    then show ?thesis
      using tx_invD(4) [OF inv, of id b] by (auto simp: live_def)
  next
    case False
    have "tx_ID (tx_store m ! b) \<noteq> tx_id now ?n" if "b < length (tx_store m)"
      using numbered_inject [OF tx_invD(3) [OF inv that] num] that bound by auto
    with False show ?thesis
      using tx_invD(4) [OF inv, of id b] by (auto simp: nth_append)
  qed
  moreover have "numbered b (?s ! b)" if "b < length ?s" for b
    using tx_invD(3) [OF inv, of b] num that by (cases "b = length (tx_store m)") (auto simp: nth_append)
  moreover have "\<not> (tx_Committed (?s ! b) \<and> tx_Aborted (?s ! b))" if "b < length ?s" for b
    using tx_invD(2) [OF inv, of b] that by (cases "b = length (tx_store m)") (auto simp: nth_append)
  ultimately show ?thesis
    using tx_invD [OF inv] unfolding Begin_def Let_def tx_inv_def
    by (simp add: live_def add.commute)
qed

lemma tx_step_length: "tx_step m m' \<Longrightarrow> length (tx_store m) \<le> length (tx_store m')"
  by (induction rule: tx_step.induct)
    (auto simp: Begin_def Commit_def Rollback_def tx_Write_def tx_Delete_def SetSnapshotVersion_def Let_def)

lemma tx_inv_step:
  "tx_step m m' \<Longrightarrow> tx_inv m \<Longrightarrow> length (tx_store m) < 2 ^ 64 - 1 \<Longrightarrow> tx_inv m'"
proof (induction rule: tx_step.induct)
  case (tx_begin m now snapshot)
  then show ?case by (simp add: tx_inv_Begin)
next
  case (tx_commit a m)
  then show ?case
    using tx_inv_finish [of m a "(tx_store m ! a)\<lparr>tx_Committed := True\<rparr>"]
    by (auto simp: Commit_def Let_def live_def)
next
  case (tx_rollback a m)
  then show ?case
    using tx_inv_finish [of m a "(tx_store m ! a)\<lparr>tx_Aborted := True\<rparr>"]
    by (auto simp: Rollback_def Let_def live_def)
next
  case (tx_write a m table key v)
  then show ?case
    by (auto simp: tx_Write_def Let_def set_change_def intro: tx_inv_change)
next
  case (tx_delete a m table key)
  then show ?case
    by (auto simp: tx_Delete_def Let_def set_change_def intro: tx_inv_change)
next
  case (tx_version a m v)
  then show ?case
    by (auto simp: SetSnapshotVersion_def intro: tx_inv_change)
qed

lemma tx_reach_inv: "tx_reach m \<Longrightarrow> length (tx_store m) < 2 ^ 64 - 1 \<Longrightarrow> tx_inv m"
proof (induction rule: tx_reach.induct)
  case tx_new
  then show ?case
    by (simp add: tx_inv_def tx_NewManager_def)
next
  case (tx_more m m')
  then show ?case
    using tx_step_length [of m m'] tx_inv_step [of m m'] by simp
qed

lemma count_partition:
  "\<forall>t \<in> set ts. \<not> (tx_Committed t \<and> tx_Aborted t) \<Longrightarrow>
   count live ts + count tx_Committed ts + count tx_Aborted ts = length ts"
  by (induction ts) (auto simp: count_def live_def)

text \<open>C20: in every reachable state the statistics count the transactions exactly: each one that was begun
  is active, committed or aborted and never two of them, and the registry holds the active ones.\<close>
theorem tx_statistics_exact:
  assumes "tx_reach m" "length (tx_store m) < 2 ^ 64 - 1"
  shows "\<exists>act com abo. tx_GetStats m = (of_nat act, of_nat com, of_nat abo) \<and>
     act + com + abo = length (tx_store m) \<and>
     com = length (filter tx_Committed (tx_store m)) \<and> abo = length (filter tx_Aborted (tx_store m)) \<and>
     (\<forall>i a. gm_get (tx_transactions m) i = Some a \<longleftrightarrow>
        a < length (tx_store m) \<and> tx_ID (tx_store m ! a) = i \<and> live (tx_store m ! a))"
proof -
  have inv: "tx_inv m"
    using assms by (rule tx_reach_inv)
  have "count live (tx_store m) + count tx_Committed (tx_store m) + count tx_Aborted (tx_store m) =
      length (tx_store m)"
    by (rule count_partition) (metis in_set_conv_nth inv tx_invD(2))
  then show ?thesis
    using tx_invD [OF inv] by (auto simp: tx_GetStats_def count_def)
qed

definition sample_txs :: txs where
  "sample_txs = snd (Commit 0 (snd (tx_Write 0 ''t'' ''k'' (VInt 1) (snd (Begin 7 [] tx_NewManager)))))"

lemma sample_store:
  "tx_store sample_txs =
     [\<lparr>tx_ID = tx_id 7 1, tx_Snapshot = [], tx_Changes = [(''t'', [(''k'', VInt 1)])], tx_Committed = True,
       tx_Aborted = False, tx_snapshotVersion = 0\<rparr>]"
  by (simp add: sample_txs_def Commit_def tx_Write_def Begin_def tx_NewManager_def set_change_def Let_def)

lemma sample_reach: "tx_reach sample_txs"
  unfolding sample_txs_def
  by (intro tx_more [OF tx_more [OF tx_more [OF tx_new tx_begin] tx_write] tx_commit])
    (simp_all add: tx_Write_def Begin_def tx_NewManager_def set_change_def Let_def)

theorem tx_statistics_exact_witness:
  "\<exists>act com abo. tx_GetStats sample_txs = (of_nat act, of_nat com, of_nat abo) \<and>
     act + com + abo = length (tx_store sample_txs)"
proof -
  have "length (tx_store sample_txs) < 2 ^ 64 - 1"
    by (simp add: sample_store)
  from tx_statistics_exact [OF sample_reach this] show ?thesis
    by blast
qed

lemma tx_step_frozen:
  "tx_step m m' \<Longrightarrow> a < length (tx_store m) \<Longrightarrow> \<not> live (tx_store m ! a) \<Longrightarrow>
   a < length (tx_store m') \<and> tx_Changes (tx_store m' ! a) = tx_Changes (tx_store m ! a) \<and>
   tx_Committed (tx_store m' ! a) = tx_Committed (tx_store m ! a) \<and>
   tx_Aborted (tx_store m' ! a) = tx_Aborted (tx_store m ! a)"
  by (induction rule: tx_step.induct)
    (auto simp: Begin_def Commit_def Rollback_def tx_Write_def tx_Delete_def SetSnapshotVersion_def Let_def
      live_def nth_append nth_list_update)

text \<open>C40: a transaction that was committed or rolled back stays so for ever: whatever is done with any
  transaction afterwards, its changes and its outcome do not move, and every further commit,
  rollback, write or delete on it is refused without effect.\<close>
theorem finalized_transaction_frozen:
  assumes "tx_step\<^sup>*\<^sup>* m m'" "a < length (tx_store m)" "\<not> live (tx_store m ! a)"
  shows "tx_Changes (tx_store m' ! a) = tx_Changes (tx_store m ! a) \<and>
     tx_Committed (tx_store m' ! a) = tx_Committed (tx_store m ! a) \<and>
     tx_Aborted (tx_store m' ! a) = tx_Aborted (tx_store m ! a) \<and>
     Commit a m' = (Inl ErrTxFinalized, m') \<and> Rollback a m' = (Some ErrTxFinalized, m') \<and>
     tx_Write a table key v m' = (Some ErrTxFinalized, m') \<and> tx_Delete a table key m' = (Some ErrTxFinalized, m')"
proof -
  have "a < length (tx_store m') \<and> tx_Changes (tx_store m' ! a) = tx_Changes (tx_store m ! a) \<and>
     tx_Committed (tx_store m' ! a) = tx_Committed (tx_store m ! a) \<and>
     tx_Aborted (tx_store m' ! a) = tx_Aborted (tx_store m ! a)"
    using assms(1)
  proof (induction rule: rtranclp_induct)
    case base
    then show ?case using assms(2) by simp
  next
    case (step m1 m2)
    then show ?case
      using tx_step_frozen [OF step.hyps(2), of a] assms(3) by (simp add: live_def)
  qed
  then show ?thesis
    using assms(3)
    by (auto simp: live_def Commit_def Rollback_def tx_Write_def tx_Delete_def Let_def)
qed

theorem finalized_transaction_frozen_witness:
  "Rollback 0 (snd (Begin 9 [] sample_txs)) = (Some ErrTxFinalized, snd (Begin 9 [] sample_txs))"
  using finalized_transaction_frozen [of sample_txs "snd (Begin 9 [] sample_txs)" 0]
    r_into_rtranclp [of tx_step, OF tx_begin [of sample_txs 9 "[]"]]
  by (simp add: sample_store live_def)

text \<open>The changes of a transaction as a map.\<close>

definition change_of :: "transaction \<Rightarrow> string \<times> string \<Rightarrow> goval option" where
  "change_of t p = (case gm_get (tx_Changes t) (fst p) of None \<Rightarrow> None | Some r \<Rightarrow> gm_get r (snd p))"

lemma change_of_set_change: "change_of (set_change table key v t) = (change_of t)((table, key) \<mapsto> v)"
  by (auto simp: change_of_def set_change_def Let_def fun_eq_iff)

text \<open>Writes and deletes in an open transaction build up a finite map from table and key to the last
  value written, a delete being recorded as nil; no other transaction changes, nor the counters.\<close>
theorem transaction_buffers_changes:
  assumes "a < length (tx_store m)" "live (tx_store m ! a)"
  shows "\<exists>m1 m2. tx_Write a table key v m = (None, m1) \<and> tx_Delete a table key m = (None, m2) \<and>
     change_of (tx_store m1 ! a) = (change_of (tx_store m ! a))((table, key) \<mapsto> v) \<and>
     change_of (tx_store m2 ! a) = (change_of (tx_store m ! a))((table, key) \<mapsto> VNil) \<and>
     (\<forall>b. b \<noteq> a \<longrightarrow> tx_store m1 ! b = tx_store m ! b \<and> tx_store m2 ! b = tx_store m ! b) \<and>
     tx_GetStats m1 = tx_GetStats m \<and> tx_GetStats m2 = tx_GetStats m"
  using assms
  by (simp add: tx_Write_def tx_Delete_def live_def Let_def change_of_set_change tx_GetStats_def)

theorem transaction_buffers_changes_witness:
  "\<exists>m1. tx_Write 0 ''t'' ''k'' (VInt 1) (snd (Begin 7 [] tx_NewManager)) = (None, m1) \<and>
     change_of (tx_store m1 ! 0) (''t'', ''k'') = Some (VInt 1)"
  using transaction_buffers_changes [of 0 "snd (Begin 7 [] tx_NewManager)" "''t''" "''k''" "VInt 1"]
  by (auto simp: Begin_def tx_NewManager_def live_def Let_def)

end
