(* ===== verification/Storage.thy ===== *)
theory Storage
  imports Interfaces Crypto Tx
begin

text \<open>
  The storage engine, \<^verbatim>\<open>modules/storage/engine.go\<close>, over a model of the file system.

  A file has its contents, its modification time and whether its contents have been synced: a crash
  may cut a file that was not. JSON is a parameter with its round-trip law. A nil Go map, which
  decoding \<^verbatim>\<open>null\<close> yields, reads like the empty map and is modelled as it; the panic of a later
  write to it is not.
\<close>

section \<open>Files\<close>

record disk_file =
  f_data :: bytes
  f_time :: nat
  f_durable :: bool

type_synonym fs = "string \<Rightarrow> disk_file option"

text \<open>Where an operation on a file fails; a failing write leaves \<open>n\<close> bytes.\<close>

datatype fault = IoOk | OpenFails | FlockFails | WriteFails nat | SyncFails | RenameFails

text \<open>A crash leaves synced files alone and cuts or loses the others.\<close>

definition crashed :: "fs \<Rightarrow> fs \<Rightarrow> bool" where
  "crashed fs fs' \<longleftrightarrow> (\<forall>p. case fs p of
      None \<Rightarrow> fs' p = None
    | Some f \<Rightarrow> (if f_durable f then fs' p = Some f
                else fs' p = None \<or> (\<exists>k. fs' p = Some (f\<lparr>f_data := take k (f_data f)\<rparr>))))"

text \<open>\<^verbatim>\<open>os.WriteFile\<close>: truncate and write, no sync.\<close>

definition WriteFile :: "fault \<Rightarrow> nat \<Rightarrow> string \<Rightarrow> bytes \<Rightarrow> fs \<Rightarrow> goerror option \<times> fs" where
  "WriteFile fault now path data fs =
     (case fault of
        OpenFails \<Rightarrow> (Some ErrIO, fs)
      | WriteFails n \<Rightarrow> (Some ErrIO, fs(path \<mapsto> \<lparr>f_data = take n data, f_time = now, f_durable = False\<rparr>))
      | _ \<Rightarrow> (None, fs(path \<mapsto> \<lparr>f_data = data, f_time = now, f_durable = False\<rparr>)))"

section \<open>The engine\<close>

record engine =
  en_path :: string
  en_key :: key
  en_compression :: bool
  en_maxRetries :: nat

definition storage_New :: "string \<Rightarrow> key \<Rightarrow> bool \<Rightarrow> nat \<Rightarrow> engine" where
  "storage_New path key compression retries =
     \<lparr>en_path = path, en_key = key, en_compression = compression, en_maxRetries = retries\<rparr>"

definition GetPath :: "engine \<Rightarrow> string" where
  "GetPath e = en_path e"

definition getKey :: "engine \<Rightarrow> key" where
  "getKey e = en_key e"

definition UpdateKey :: "key \<Rightarrow> engine \<Rightarrow> engine" where
  "UpdateKey newKey e = e\<lparr>en_key := newKey\<rparr>"

definition tmp_path :: "string \<Rightarrow> string" where
  "tmp_path path = path @ ''.tmp''"

text \<open>The file system after the first \<open>n\<close> of the four effects of \<^verbatim>\<open>atomicWrite\<close>.\<close>

fun write_steps :: "nat \<Rightarrow> nat \<Rightarrow> bytes \<Rightarrow> string \<Rightarrow> fs \<Rightarrow> fs" where
  "write_steps 0 now data path fs = fs"
| "write_steps (Suc 0) now data path fs =
     fs(tmp_path path \<mapsto> \<lparr>f_data = [], f_time = now, f_durable = False\<rparr>)"
| "write_steps (Suc (Suc 0)) now data path fs =
     fs(tmp_path path \<mapsto> \<lparr>f_data = data, f_time = now, f_durable = False\<rparr>)"
| "write_steps (Suc (Suc (Suc 0))) now data path fs =
     fs(tmp_path path \<mapsto> \<lparr>f_data = data, f_time = now, f_durable = True\<rparr>)"
| "write_steps _ now data path fs =
     fs(path \<mapsto> \<lparr>f_data = data, f_time = now, f_durable = True\<rparr>, tmp_path path := None)"

definition atomicWrite :: "fault \<Rightarrow> nat \<Rightarrow> bytes \<Rightarrow> string \<Rightarrow> fs \<Rightarrow> goerror option \<times> fs" where
  "atomicWrite fault now data path fs =
     (case fault of
        OpenFails \<Rightarrow> (Some ErrIO, write_steps 0 now data path fs)
      | FlockFails \<Rightarrow> (Some ErrIO, write_steps 1 now data path fs)
      | WriteFails n \<Rightarrow> (Some ErrIO, write_steps 2 now (take n data) path fs)
      | SyncFails \<Rightarrow> (Some ErrIO, write_steps 2 now data path fs)
      | RenameFails \<Rightarrow> (Some ErrIO, write_steps 3 now data path fs)
      | IoOk \<Rightarrow> (None, write_steps 4 now data path fs))"

definition tables_val :: "tables \<Rightarrow> goval" where
  "tables_val d = VMap (map (\<lambda>(t, r). (t, VMap r)) d)"

text \<open>What \<^verbatim>\<open>json.Unmarshal\<close> stores into a \<^verbatim>\<open>map[string]map[string]any\<close>.\<close>

fun tables_of :: "(string \<times> goval) list \<Rightarrow> tables res" where
  "tables_of [] = Inr []"
| "tables_of ((t, v) # kvs) =
     (case (case v of VMap r \<Rightarrow> Some r | VNil \<Rightarrow> Some [] | _ \<Rightarrow> None) of
        None \<Rightarrow> Inl ErrJson
      | Some r \<Rightarrow> (case tables_of kvs of Inl e \<Rightarrow> Inl e | Inr d \<Rightarrow> Inr ((t, r) # d)))"

definition unmarshal_tables :: "golib \<Rightarrow> bytes \<Rightarrow> tables res" where
  "unmarshal_tables L b =
     (case json_unmarshal L b of
        Some (VMap kvs) \<Rightarrow> tables_of kvs
      | Some VNil \<Rightarrow> Inr []
      | _ \<Rightarrow> Inl ErrJson)"

definition Serialize :: "golib \<Rightarrow> bytes option \<Rightarrow> tables \<Rightarrow> engine \<Rightarrow> bytes res" where
  "Serialize L rnd data e =
     (case json_marshal L (tables_val data) of
        None \<Rightarrow> Inl ErrJson
      | Some j \<Rightarrow> Encrypt rnd j (getKey e))"

definition Save :: "golib \<Rightarrow> bytes option \<Rightarrow> fault \<Rightarrow> nat \<Rightarrow> tables \<Rightarrow> engine \<Rightarrow> fs \<Rightarrow> goerror option \<times> fs" where
  "Save L rnd fault now data e fs =
     (case json_marshal L (tables_val data) of
        None \<Rightarrow> (Some ErrJson, fs)
      | Some j \<Rightarrow>
          (case Encrypt rnd j (en_key e) of
             Inl err \<Rightarrow> (Some err, fs)
           | Inr c \<Rightarrow> atomicWrite fault now c (en_path e) fs))"

text \<open>\<open>io\<close>: no step of opening, locking and reading the file fails. A missing file reads as no data
  with the zero time, which is 0 here.\<close>

definition Load :: "golib \<Rightarrow> bool \<Rightarrow> engine \<Rightarrow> fs \<Rightarrow> (tables \<times> nat) res" where
  "Load L io e fs =
     (case fs (en_path e) of
        None \<Rightarrow> Inr ([], 0)
      | Some f \<Rightarrow>
          if \<not> io then Inl ErrIO
          else (case Decrypt (f_data f) (en_key e) of
                  Inl _ \<Rightarrow> Inl ErrDecrypt
                | Inr j \<Rightarrow>
                    (case unmarshal_tables L j of Inl err \<Rightarrow> Inl err | Inr data \<Rightarrow> Inr (data, f_time f))))"

definition ExportPlain :: "golib \<Rightarrow> fault \<Rightarrow> nat \<Rightarrow> tables \<Rightarrow> string \<Rightarrow> fs \<Rightarrow> goerror option \<times> fs" where
  "ExportPlain L fault now data path fs =
     (case json_indent L (tables_val data) of
        None \<Rightarrow> (Some ErrJson, fs)
      | Some j \<Rightarrow> WriteFile fault now path j fs)"

definition ImportPlain :: "golib \<Rightarrow> string \<Rightarrow> fs \<Rightarrow> tables res" where
  "ImportPlain L path fs =
     (case fs path of None \<Rightarrow> Inl ErrIO | Some f \<Rightarrow> unmarshal_tables L (f_data f))"

definition ExportEncrypted :: "golib \<Rightarrow> bytes option \<Rightarrow> fault \<Rightarrow> nat \<Rightarrow> tables \<Rightarrow> string \<Rightarrow> engine \<Rightarrow> fs \<Rightarrow>
    goerror option \<times> fs" where
  "ExportEncrypted L rnd fault now data path e fs =
     (case json_indent L (tables_val data) of
        None \<Rightarrow> (Some ErrJson, fs)
      | Some j \<Rightarrow>
          (case Encrypt rnd j (getKey e) of
             Inl err \<Rightarrow> (Some err, fs)
           | Inr c \<Rightarrow> WriteFile fault now path c fs))"

definition ImportEncrypted :: "golib \<Rightarrow> string \<Rightarrow> engine \<Rightarrow> fs \<Rightarrow> tables res" where
  "ImportEncrypted L path e fs =
     (case fs path of
        None \<Rightarrow> Inl ErrIO
      | Some f \<Rightarrow>
          (case Decrypt (f_data f) (getKey e) of
             Inl err \<Rightarrow> Inl err
           | Inr j \<Rightarrow> unmarshal_tables L j))"

section \<open>The law of JSON\<close>

text \<open>
  \<open>json_ok L nrm\<close>: what \<^verbatim>\<open>encoding/json\<close> encodes, plain or indented, it decodes to the normal form
  \<open>nrm\<close> of the value, and the normal form of an object with ASCII names has the same names with
  normalised values. (Names that are not valid UTF-8 are changed by the encoder.)
\<close>

definition names_ok :: "(string, 'a) gomap \<Rightarrow> bool" where
  "names_ok m \<longleftrightarrow> gm_wf m \<and> list_all (\<lambda>(k, v). ascii k) m"

definition json_ok :: "golib \<Rightarrow> (goval \<Rightarrow> goval) \<Rightarrow> bool" where
  "json_ok L nrm \<longleftrightarrow>
     (\<forall>v b. json_marshal L v = Some b \<or> json_indent L v = Some b \<longrightarrow> json_unmarshal L b = Some (nrm v)) \<and>
     (\<forall>m. names_ok m \<longrightarrow>
        (\<exists>m'. nrm (VMap m) = VMap m' \<and> gm_wf m' \<and> (\<forall>k. gm_get m' k = map_option nrm (gm_get m k))))"

definition tables_ok :: "tables \<Rightarrow> bool" where
  "tables_ok d \<longleftrightarrow> names_ok d \<and> list_all (\<lambda>(t, r). names_ok r) d"

text \<open>The tables as maps, and the normal form of such a map.\<close>

definition view :: "tables \<Rightarrow> string \<Rightarrow> (string \<Rightarrow> goval option) option" where
  "view d t = map_option map_of (gm_get d t)"

definition norm_view :: "(goval \<Rightarrow> goval) \<Rightarrow> (string \<Rightarrow> (string \<Rightarrow> goval option) option) \<Rightarrow>
    string \<Rightarrow> (string \<Rightarrow> goval option) option" where
  "norm_view nrm w t = map_option (\<lambda>r k. map_option nrm (r k)) (w t)"

lemma norm_view_id [simp]: "norm_view (\<lambda>v. v) w = w"
proof
  show "norm_view (\<lambda>v. v) w t = w t" for t
    by (cases "w t") (simp_all add: norm_view_def option.map_ident)
qed

fun map_entries :: "goval \<Rightarrow> (string, goval) gomap" where
  "map_entries (VMap r) = r"
| "map_entries _ = []"

lemma tables_of_maps:
  "list_all (\<lambda>(t, v). \<exists>r. v = VMap r) m \<Longrightarrow> tables_of m = Inr (map (\<lambda>(t, v). (t, map_entries v)) m)"
  by (induction m rule: tables_of.induct) auto

lemma names_ok_map [simp]: "names_ok (map (\<lambda>(k, v). (k, f v)) m) = names_ok m"
  using gm_wf_map [of "\<lambda>_. f" m] by (auto simp: names_ok_def list_all_iff)

lemma tables_of_norm:
  assumes "json_ok L nrm" "tables_ok d"
  obtains m' d' where "nrm (tables_val d) = VMap m'" "tables_of m' = Inr d'" "view d' = norm_view nrm (view d)"
    "gm_wf d'"
proof -
  let ?m = "map (\<lambda>(t, r). (t, VMap r)) d"
  have "names_ok ?m"
    using assms(2) by (simp add: tables_ok_def)
  then obtain m' where m': "nrm (VMap ?m) = VMap m'" "gm_wf m'" "\<And>k. gm_get m' k = map_option nrm (gm_get ?m k)"
    using assms(1) unfolding json_ok_def by blast
  have row: "\<exists>r'. nrm (VMap r) = VMap r' \<and> map_of r' = (\<lambda>k. map_option nrm (gm_get r k))"
    if "gm_get d t = Some r" for t r
  proof -
    have "names_ok r"
      using assms(2) map_of_SomeD [OF that] by (auto simp: tables_ok_def list_all_iff)
    then show ?thesis
      using assms(1) unfolding json_ok_def by (metis ext)
  qed
  have "\<exists>r. v = VMap r" if "(t, v) \<in> set m'" for t v
  proof -
    have "gm_get m' t = Some v"
      using that m'(2) by (simp add: gm_get_in_set)
    then show ?thesis
      using m'(3) [of t] row [of t] by (auto simp: gm_get_map)
  qed
  then have maps: "tables_of m' = Inr (map (\<lambda>(t, v). (t, map_entries v)) m')" (is "_ = Inr ?d'")
    by (intro tables_of_maps) (auto simp: list_all_iff)
  have "view ?d' t = norm_view nrm (view d) t" for t
    using m'(3) [of t] row [of t] by (cases "gm_get d t") (auto simp: view_def norm_view_def gm_get_map)
  moreover have "gm_wf ?d'"
    using m'(2) gm_wf_map [of "\<lambda>_. map_entries" m'] by simp
  ultimately show thesis
    using that [of m' ?d'] m'(1) maps by (auto simp: tables_val_def)
qed

lemma unmarshal_tables_norm:
  assumes "json_ok L nrm" "tables_ok d"
    and "json_marshal L (tables_val d) = Some b \<or> json_indent L (tables_val d) = Some b"
  shows "\<exists>d'. unmarshal_tables L b = Inr d' \<and> view d' = norm_view nrm (view d)"
proof -
  obtain m' d' where "nrm (tables_val d) = VMap m'" "tables_of m' = Inr d'" "view d' = norm_view nrm (view d)"
    using tables_of_norm [OF assms(1,2)] .
  moreover have "json_unmarshal L b = Some (nrm (tables_val d))"
    using assms(1,3) unfolding json_ok_def by blast
  ultimately show ?thesis
    by (simp add: unmarshal_tables_def)
qed

section \<open>Saving and loading\<close>

lemma tmp_path_neq [simp]: "tmp_path p \<noteq> p" "p \<noteq> tmp_path p"
  by (simp_all add: tmp_path_def)

lemma atomicWrite_err: "atomicWrite fault now data path fs = (Some err, fs') \<Longrightarrow> fs' path = fs path"
  by (auto simp: atomicWrite_def numeral_3_eq_3 numeral_2_eq_2 split: fault.splits)

lemma atomicWrite_ok:
  "atomicWrite fault now data path fs = (None, fs') \<Longrightarrow>
   fs' path = Some \<lparr>f_data = data, f_time = now, f_durable = True\<rparr>"
  by (auto simp: atomicWrite_def eval_nat_numeral split: fault.splits)

text \<open>The data part of \<^verbatim>\<open>Load\<close>.\<close>

definition stored :: "golib \<Rightarrow> engine \<Rightarrow> fs \<Rightarrow> tables res" where
  "stored L e fs = (case Load L True e fs of Inl err \<Rightarrow> Inl err | Inr (d, _) \<Rightarrow> Inr d)"

lemma stored_cong: "fs (en_path e) = fs' (en_path e) \<Longrightarrow> stored L e fs = stored L e fs'"
  by (simp add: stored_def Load_def)

definition save_good :: "golib \<Rightarrow> (goval \<Rightarrow> goval) \<Rightarrow> bytes option \<times> fault \<times> nat \<Rightarrow> tables \<Rightarrow> bool" where
  "save_good L nrm n d \<longleftrightarrow> json_ok L nrm \<and> tables_ok d \<and> nonce_ok (fst n)"

lemma Save_stores:
  assumes "json_ok L nrm" "tables_ok d" "nonce_ok rnd" "Save L rnd fault now d e fs = (None, fs')"
  shows "\<exists>d'. Load L True e fs' = Inr (d', now) \<and> view d' = norm_view nrm (view d)"
proof -
  from assms(4) obtain j c where j: "json_marshal L (tables_val d) = Some j" and c: "Encrypt rnd j (en_key e) = Inr c"
    and w: "atomicWrite fault now c (en_path e) fs = (None, fs')"
    by (auto simp: Save_def split: option.splits sum.splits)
  obtain d' where "unmarshal_tables L j = Inr d'" "view d' = norm_view nrm (view d)"
    using unmarshal_tables_norm [OF assms(1,2)] j by blast
  with atomicWrite_ok [OF w] Decrypt_Encrypt [OF assms(3) c] show ?thesis
    by (simp add: Load_def)
qed

lemma Save_err_path:
  "Save L rnd fault now d e fs = (Some err, fs') \<Longrightarrow> fs' (en_path e) = fs (en_path e)"
  by (auto simp: Save_def split: option.splits sum.splits dest: atomicWrite_err)

interpretation engine_store: snapshot_store "save_good L nrm"
    "\<lambda>(rnd, fault, now) d fs. Save L rnd fault now d e fs" "stored L e" view "norm_view nrm"
  for L nrm e
proof unfold_locales
  show "\<exists>d'. stored L e s' = Inr d' \<and> view d' = norm_view nrm (view d)"
    if "save_good L nrm n d" "(case n of (rnd, fault, now) \<Rightarrow> \<lambda>d fs. Save L rnd fault now d e fs) d s = (None, s')"
    for n d s s'
    using that Save_stores [of L nrm d "fst n" "fst (snd n)" "snd (snd n)" e s s']
    by (auto simp: save_good_def stored_def split: prod.splits)
  show "stored L e s' = stored L e s"
    if "(case n of (rnd, fault, now) \<Rightarrow> \<lambda>d fs. Save L rnd fault now d e fs) d s = (Some err, s')"
    for n d s s' err
    using that by (auto split: prod.splits dest!: Save_err_path intro: stored_cong)
qed

text \<open>C9: a snapshot that was saved is loaded again, under the same key, with exactly its tables and
  records, values in the normal form of JSON, together with the time of the write.\<close>
theorem Save_Load_roundtrip:
  assumes "json_ok L nrm" "tables_ok d" "nonce_ok rnd" "Save L rnd fault now d e fs = (None, fs')"
  shows "\<exists>d'. Load L True e fs' = Inr (d', now) \<and> view d' = norm_view nrm (view d)"
  using assms by (rule Save_stores)

text \<open>A JSON that knows one value, for closed examples.\<close>

definition sample_json :: "goval \<Rightarrow> golib" where
  "sample_json v = sample_lib
     \<lparr>json_marshal := \<lambda>u. if u = v then Some [1] else None,
      json_indent := \<lambda>u. if u = v then Some [1] else None,
      json_unmarshal := \<lambda>b. if b = [1] then Some v else None\<rparr>"

lemma sample_json_ok [simp]: "json_ok (sample_json v) (\<lambda>v. v)"
  by (auto simp: json_ok_def sample_json_def names_ok_def option.map_ident split: if_splits)

definition sample_tables :: tables where
  "sample_tables = [(''t'', [(''k'', VFloat64 7)])]"

lemma sample_tables_ok [simp]: "tables_ok sample_tables"
  by (simp add: sample_tables_def tables_ok_def names_ok_def ascii_def gm_wf_def)

definition sample_engine :: engine where
  "sample_engine = storage_New ''db'' zero_key False 3"

definition sample_Save :: "fault \<Rightarrow> goerror option \<times> fs" where
  "sample_Save fault =
     Save (sample_json (tables_val sample_tables)) (Some (replicate 12 0)) fault 5 sample_tables sample_engine
       (\<lambda>_. None)"

lemma sample_nonce [simp]: "nonce_ok (Some (replicate 12 0))"
  by (simp add: nonce_ok_def nonceSize_def)

lemma sample_Save_ok: "\<exists>fs. sample_Save IoOk = (None, fs)"
  by (simp add: sample_Save_def Save_def sample_json_def Encrypt_def atomicWrite_def)

theorem Save_Load_roundtrip_witness:
  "\<exists>d'. Load (sample_json (tables_val sample_tables)) True sample_engine (snd (sample_Save IoOk)) = Inr (d', 5) \<and>
     view d' = view sample_tables"
proof -
  obtain fs where fs: "sample_Save IoOk = (None, fs)"
    using sample_Save_ok by blast
  then have "Save (sample_json (tables_val sample_tables)) (Some (replicate 12 0)) IoOk 5 sample_tables
      sample_engine (\<lambda>_. None) = (None, fs)"
    by (simp add: sample_Save_def)
  from Save_Load_roundtrip [OF sample_json_ok sample_tables_ok sample_nonce this] fs show ?thesis
    by simp
qed

text \<open>C10: \<^verbatim>\<open>Save\<close> is all or nothing: when any of its steps fails, the next \<^verbatim>\<open>Load\<close> yields what the
  previous one would have; and when the machine crashes after any of its steps, \<^verbatim>\<open>Load\<close> yields the
  old or the complete new snapshot, never a mixture and never a cut file.\<close>
theorem Save_atomic:
  assumes "json_ok L nrm" "tables_ok d" "nonce_ok rnd"
    and "json_marshal L (tables_val d) = Some j" "Encrypt rnd j (en_key e) = Inr c"
    and "\<forall>f. fs (en_path e) = Some f \<longrightarrow> f_durable f"
    and "n \<le> 4" "crashed (write_steps n now c (en_path e) fs) fs'"
  shows "(fault \<noteq> IoOk \<longrightarrow> stored L e (snd (Save L rnd fault now d e fs)) = stored L e fs) \<and>
     (stored L e fs' = stored L e fs \<or>
      (n = 4 \<and> (\<exists>d'. stored L e fs' = Inr d' \<and> view d' = norm_view nrm (view d))))"
proof (intro conjI impI)
  assume "fault \<noteq> IoOk"
  then obtain err where "Save L rnd fault now d e fs = (Some err, snd (Save L rnd fault now d e fs))"
    using assms(4,5) by (cases fault) (auto simp: Save_def atomicWrite_def)
  then show "stored L e (snd (Save L rnd fault now d e fs)) = stored L e fs"
    using engine_store.save_err [where n = "(rnd, fault, now)" and d = d and e = e and L = L and s = fs] by auto
next
  show "stored L e fs' = stored L e fs \<or>
      (n = 4 \<and> (\<exists>d'. stored L e fs' = Inr d' \<and> view d' = norm_view nrm (view d)))"
  proof (cases "n = 4")
    case True
    then have "fs' (en_path e) = Some \<lparr>f_data = c, f_time = now, f_durable = True\<rparr>"
      using assms(8) unfolding crashed_def
      by (auto simp: eval_nat_numeral split: option.splits dest!: spec [of _ "en_path e"])
    moreover have "Save L rnd IoOk now d e fs = (None, write_steps 4 now c (en_path e) fs)"
      using assms(4,5) by (simp add: Save_def atomicWrite_def)
    from Save_stores [OF assms(1-3) this] obtain d' where
      "Load L True e (write_steps 4 now c (en_path e) fs) = Inr (d', now)" "view d' = norm_view nrm (view d)"
      by blast
    moreover have "write_steps 4 now c (en_path e) fs (en_path e) = Some \<lparr>f_data = c, f_time = now, f_durable = True\<rparr>"
      by (simp add: eval_nat_numeral)
    ultimately show ?thesis
      using True by (auto simp: stored_def Load_def)
  next
    case False
    with assms(7) have "n = 0 \<or> n = 1 \<or> n = 2 \<or> n = 3"
      by auto
    then have same: "write_steps n now c (en_path e) fs (en_path e) = fs (en_path e)"
      by (elim disjE) (simp_all add: eval_nat_numeral)
    have "fs' (en_path e) = fs (en_path e)"
      using assms(8) [unfolded crashed_def, rule_format, of "en_path e"] assms(6) unfolding same
      by (cases "fs (en_path e)") auto
    then show ?thesis
      using stored_cong by blast
  qed
qed

theorem Save_atomic_witness:
  "stored (sample_json (tables_val sample_tables)) sample_engine (snd (sample_Save SyncFails)) =
   stored (sample_json (tables_val sample_tables)) sample_engine (\<lambda>_. None)"
proof -
  let ?L = "sample_json (tables_val sample_tables)" and ?n = "Some (replicate 12 0)"
  obtain c where c: "Encrypt ?n [1] (en_key sample_engine) = Inr c"
    by (auto simp: Encrypt_def)
  have m: "json_marshal ?L (tables_val sample_tables) = Some [1]"
    by (simp add: sample_json_def)
  have "crashed (write_steps 0 5 c (en_path sample_engine) (\<lambda>_. None)) (\<lambda>_. None)"
    by (simp add: crashed_def)
  from Save_atomic [OF sample_json_ok sample_tables_ok sample_nonce m c _ _ this, of SyncFails]
  show ?thesis
    by (simp add: sample_Save_def)
qed

text \<open>C36: an encrypted export is imported again, with the same key, as the same tables, and a plain one
  as well; both are written in place, so a write that fails after \<open>n\<close> bytes replaces what the path held by
  the first \<open>n\<close> bytes of the export.\<close>
theorem Export_Import_roundtrip:
  assumes "json_ok L nrm" "tables_ok d" "nonce_ok rnd"
    and "ExportEncrypted L rnd fault now d path e fs = (None, fs1)"
    and "ExportPlain L fault now d path fs = (None, fs2)"
  shows "(\<exists>d1 d2. ImportEncrypted L path e fs1 = Inr d1 \<and> view d1 = norm_view nrm (view d) \<and>
       ImportPlain L path fs2 = Inr d2 \<and> view d2 = norm_view nrm (view d)) \<and>
     (\<exists>c j. fs1 path = Some \<lparr>f_data = c, f_time = now, f_durable = False\<rparr> \<and>
       fs2 path = Some \<lparr>f_data = j, f_time = now, f_durable = False\<rparr> \<and>
       (\<forall>n. ExportEncrypted L rnd (WriteFails n) now d path e fs =
              (Some ErrIO, fs(path \<mapsto> \<lparr>f_data = take n c, f_time = now, f_durable = False\<rparr>)) \<and>
            ExportPlain L (WriteFails n) now d path fs =
              (Some ErrIO, fs(path \<mapsto> \<lparr>f_data = take n j, f_time = now, f_durable = False\<rparr>))))"
proof -
  obtain j c where j: "json_indent L (tables_val d) = Some j" and c: "Encrypt rnd j (getKey e) = Inr c"
    and "WriteFile fault now path c fs = (None, fs1)" "WriteFile fault now path j fs = (None, fs2)"
    using assms(4,5) by (auto simp: ExportEncrypted_def ExportPlain_def split: option.splits sum.splits)
  then have "fs1 path = Some \<lparr>f_data = c, f_time = now, f_durable = False\<rparr>"
    "fs2 path = Some \<lparr>f_data = j, f_time = now, f_durable = False\<rparr>"
    by (auto simp: WriteFile_def split: fault.splits)
  moreover have "ExportEncrypted L rnd (WriteFails n) now d path e fs =
        (Some ErrIO, fs(path \<mapsto> \<lparr>f_data = take n c, f_time = now, f_durable = False\<rparr>))"
      "ExportPlain L (WriteFails n) now d path fs =
        (Some ErrIO, fs(path \<mapsto> \<lparr>f_data = take n j, f_time = now, f_durable = False\<rparr>))" for n
    using j c by (simp_all add: ExportEncrypted_def ExportPlain_def WriteFile_def)
  moreover obtain d' where "unmarshal_tables L j = Inr d'" "view d' = norm_view nrm (view d)"
    using unmarshal_tables_norm [OF assms(1,2)] j by blast
  ultimately show ?thesis
    using Decrypt_Encrypt [OF assms(3) c] by (simp add: ImportEncrypted_def ImportPlain_def)
qed

theorem Export_Import_roundtrip_witness:
  "\<exists>fs1 d1. ExportEncrypted (sample_json (tables_val sample_tables)) (Some (replicate 12 0)) IoOk 5 sample_tables
      ''x'' sample_engine (\<lambda>_. None) = (None, fs1) \<and>
     ImportEncrypted (sample_json (tables_val sample_tables)) ''x'' sample_engine fs1 = Inr d1 \<and>
     view d1 = view sample_tables"
proof -
  let ?L = "sample_json (tables_val sample_tables)" and ?n = "Some (replicate 12 0)"
  obtain fs1 where fs1: "ExportEncrypted ?L ?n IoOk 5 sample_tables ''x'' sample_engine (\<lambda>_. None) = (None, fs1)"
    by (simp add: ExportEncrypted_def sample_json_def Encrypt_def WriteFile_def)
  obtain fs2 where "ExportPlain ?L IoOk 5 sample_tables ''x'' (\<lambda>_. None) = (None, fs2)"
    by (simp add: ExportPlain_def sample_json_def WriteFile_def)
  from Export_Import_roundtrip [OF sample_json_ok sample_tables_ok sample_nonce fs1 this] fs1
  show ?thesis
    by auto
qed

end
