(* ===== verification/Metrics.thy ===== *)
theory Metrics
  imports Prelude "HOL-Library.Signed_Division"
begin

text \<open>
  The metrics collector, \<^verbatim>\<open>modules/metrics/collector.go\<close>. Counters and durations are 64-bit words;
  \<^verbatim>\<open>int64\<close> values are read as signed. Points in time are natural numbers.
\<close>

record collector =
  mc_totalReads :: "64 word"
  mc_totalWrites :: "64 word"
  mc_totalDeletes :: "64 word"
  mc_failedOps :: "64 word"
  mc_avgReadLatency :: "64 word"
  mc_avgWriteLatency :: "64 word"
  mc_dataSize :: "64 word"
  mc_walSize :: "64 word"
  mc_uptime :: nat
  mc_lastSave :: nat
  mc_saveDuration :: "64 word"

definition NewCollector :: "nat \<Rightarrow> collector" where
  "NewCollector now =
     \<lparr>mc_totalReads = 0, mc_totalWrites = 0, mc_totalDeletes = 0, mc_failedOps = 0, mc_avgReadLatency = 0,
      mc_avgWriteLatency = 0, mc_dataSize = 0, mc_walSize = 0, mc_uptime = now, mc_lastSave = 0,
      mc_saveDuration = 0\<rparr>"

definition IncrementReads :: "collector \<Rightarrow> collector" where
  "IncrementReads c = c\<lparr>mc_totalReads := mc_totalReads c + 1\<rparr>"

definition IncrementWrites :: "64 word \<Rightarrow> collector \<Rightarrow> collector" where
  "IncrementWrites n c = c\<lparr>mc_totalWrites := mc_totalWrites c + n\<rparr>"

definition IncrementDeletes :: "collector \<Rightarrow> collector" where
  "IncrementDeletes c = c\<lparr>mc_totalDeletes := mc_totalDeletes c + 1\<rparr>"

definition IncrementFailedOps :: "collector \<Rightarrow> collector" where
  "IncrementFailedOps c = c\<lparr>mc_failedOps := mc_failedOps c + 1\<rparr>"

text \<open>The moving average: a sum that may wrap, halved towards zero.\<close>

definition new_avg :: "64 word \<Rightarrow> 64 word \<Rightarrow> 64 word" where
  "new_avg current duration = word_of_int (sint (current + duration) sdiv 2)"

definition RecordReadLatency :: "64 word \<Rightarrow> collector \<Rightarrow> collector" where
  "RecordReadLatency duration c = c\<lparr>mc_avgReadLatency := new_avg (mc_avgReadLatency c) duration\<rparr>"

definition RecordWriteLatency :: "64 word \<Rightarrow> collector \<Rightarrow> collector" where
  "RecordWriteLatency duration c = c\<lparr>mc_avgWriteLatency := new_avg (mc_avgWriteLatency c) duration\<rparr>"

definition RecordSaveDuration :: "nat \<Rightarrow> 64 word \<Rightarrow> collector \<Rightarrow> collector" where
  "RecordSaveDuration now duration c = c\<lparr>mc_lastSave := now, mc_saveDuration := duration\<rparr>"

definition UpdateDataSize :: "64 word \<Rightarrow> collector \<Rightarrow> collector" where
  "UpdateDataSize n c = c\<lparr>mc_dataSize := n\<rparr>"

definition UpdateWALSize :: "64 word \<Rightarrow> collector \<Rightarrow> collector" where
  "UpdateWALSize n c = c\<lparr>mc_walSize := n\<rparr>"

text \<open>The snapshot has the collector's own fields.\<close>

definition GetSnapshot :: "collector \<Rightarrow> collector" where
  "GetSnapshot c = c"

definition Reset :: "collector \<Rightarrow> collector" where
  "Reset c =
     c\<lparr>mc_totalReads := 0, mc_totalWrites := 0, mc_totalDeletes := 0, mc_failedOps := 0,
       mc_avgReadLatency := 0, mc_avgWriteLatency := 0\<rparr>"

lemma new_avg_bounds:
  assumes "0 \<le> sint cur" "sint cur \<le> B" "0 \<le> sint d" "sint d \<le> B" "B < 2 ^ 62"
  shows "0 \<le> sint (new_avg cur d)" "sint (new_avg cur d) \<le> B"
    "sint (new_avg cur d) = (sint cur + sint d) div 2"
proof -
  have sum: "sint (cur + d) = sint cur + sint d"
    using assms by (simp add: sint_word_add signed_take_bit_int_eq_self)
  have "(sint cur + sint d) sdiv 2 = (sint cur + sint d) div 2"
    using assms by (auto simp: signed_divide_int_def sgn_if)
  moreover have "sint (word_of_int ((sint cur + sint d) div 2) :: 64 word) = (sint cur + sint d) div 2"
    using assms by (simp add: sint_sbintrunc' signed_take_bit_int_eq_self)
  ultimately show "sint (new_avg cur d) = (sint cur + sint d) div 2"
    by (simp add: new_avg_def sum)
  with assms show "0 \<le> sint (new_avg cur d)" "sint (new_avg cur d) \<le> B"
    by simp_all
qed

text \<open>C34: as long as the recorded latencies lie between zero and a bound of less than 2 to the 62
  nanoseconds, the published average lies there too: no sum wraps.\<close>
theorem write_latency_bounded:
  assumes "0 \<le> sint (mc_avgWriteLatency c)" "sint (mc_avgWriteLatency c) \<le> B" "B < 2 ^ 62"
    and "\<forall>d \<in> set ds. 0 \<le> sint d \<and> sint d \<le> B"
  shows "0 \<le> sint (mc_avgWriteLatency (fold RecordWriteLatency ds c)) \<and>
     sint (mc_avgWriteLatency (fold RecordWriteLatency ds c)) \<le> B"
  using assms
proof (induction ds arbitrary: c)
  case Nil
  then show ?case by simp
next
  case (Cons d ds)
  then show ?case
    using new_avg_bounds [of "mc_avgWriteLatency c" B d] by (simp add: RecordWriteLatency_def)
qed

theorem write_latency_bounded_witness:
  "sint (mc_avgWriteLatency (fold RecordWriteLatency [100, 300] (NewCollector 0))) \<le> 300"
  using write_latency_bounded [of "NewCollector 0" 300 "[100, 300]"] by (simp add: NewCollector_def)

end
