(* ===== verification/Logger.thy ===== *)
theory Logger
  imports Prelude
begin

text \<open>
  The logger, \<^verbatim>\<open>modules/logger/logger.go\<close>: which calls write, where to, and which end the process.
  The text of the messages is immaterial.
\<close>

text \<open>The levels are the constants of the \<^verbatim>\<open>iota\<close> block, ordered by their number.\<close>

datatype level = LevelInfo | LevelWarn | LevelError | LevelFatal | LevelDebug

fun iota :: "level \<Rightarrow> nat" where
  "iota LevelInfo = 0"
| "iota LevelWarn = 1"
| "iota LevelError = 2"
| "iota LevelFatal = 3"
| "iota LevelDebug = 4"

lemma iota_inject: "iota a = iota b \<longleftrightarrow> a = b"
  by (cases a; cases b) simp_all

instantiation level :: linorder
begin

definition less_eq_level :: "level \<Rightarrow> level \<Rightarrow> bool" where
  "less_eq_level a b \<longleftrightarrow> iota a \<le> iota b"

definition less_level :: "level \<Rightarrow> level \<Rightarrow> bool" where
  "less_level a b \<longleftrightarrow> iota a < iota b"

instance
  by standard (auto simp: less_eq_level_def less_level_def iota_inject [symmetric])

end

lemmas level_defs = less_eq_level_def less_level_def

datatype log_writer = WMulti bool | WFile bool | WConsole | WDiscard   \<comment> \<open>the flag: a file is there\<close>

record logger =
  lg_minLevel :: level
  lg_toConsole :: bool
  lg_toFile :: bool
  lg_file :: bool                     \<comment> \<open>there is a log file\<close>
  lg_closed :: bool                   \<comment> \<open>its handle has been closed\<close>
  lg_out :: log_writer

definition buildWriter :: "bool \<Rightarrow> bool \<Rightarrow> bool \<Rightarrow> log_writer" where
  "buildWriter toConsole toFile have_file =
     (if toConsole \<and> toFile then WMulti have_file
      else if toFile then WFile have_file
      else if toConsole then WConsole
      else WDiscard)"

text \<open>\<open>opened\<close>: the log file can be opened; otherwise \<^verbatim>\<open>log.Fatalf\<close> ends the process.\<close>

definition NewLogger :: "string \<Rightarrow> level \<Rightarrow> bool \<Rightarrow> bool \<Rightarrow> bool \<Rightarrow> logger option" where
  "NewLogger path minLevel toConsole toFile opened =
     (let want = toFile \<and> path \<noteq> [] in
      if want \<and> \<not> opened then None
      else Some \<lparr>lg_minLevel = minLevel, lg_toConsole = toConsole, lg_toFile = toFile, lg_file = want,
                 lg_closed = False, lg_out = buildWriter toConsole toFile want\<rparr>)"

text \<open>The effect of a call: nothing, a line on the writer, a line and the end of the process, the
  end alone, or the panic of a write to a file that is not there.\<close>

datatype log_effect = Silent | Line | LineExit | Exit | LogPanic

text \<open>The file part of a line is lost when the handle is closed; with a file only, nothing is left but
  the exit.\<close>

definition emit :: "logger \<Rightarrow> log_effect \<Rightarrow> log_effect" where
  "emit l eff = (case lg_out l of
      WMulti f \<Rightarrow> if f then eff else LogPanic
    | WFile f \<Rightarrow> if \<not> f then LogPanic
        else if lg_closed l then (if eff = LineExit then Exit else Silent) else eff
    | WConsole \<Rightarrow> eff
    | WDiscard \<Rightarrow> (if eff = LineExit then Exit else Silent))"

definition Info :: "logger \<Rightarrow> log_effect" where
  "Info l = (if lg_minLevel l > LevelInfo then Silent else emit l Line)"

definition Warn :: "logger \<Rightarrow> log_effect" where
  "Warn l = (if lg_minLevel l > LevelWarn then Silent else emit l Line)"

definition Error :: "logger \<Rightarrow> log_effect" where
  "Error l = (if lg_minLevel l > LevelError then Silent else emit l Line)"

definition Fatal :: "logger \<Rightarrow> log_effect" where
  "Fatal l = (if lg_minLevel l > LevelFatal then Silent else emit l LineExit)"

text \<open>The formatting variants test the same level.\<close>

definition Infof :: "logger \<Rightarrow> log_effect" where
  "Infof l = (if lg_minLevel l > LevelInfo then Silent else emit l Line)"

definition Warnf :: "logger \<Rightarrow> log_effect" where
  "Warnf l = (if lg_minLevel l > LevelWarn then Silent else emit l Line)"

definition Errorf :: "logger \<Rightarrow> log_effect" where
  "Errorf l = (if lg_minLevel l > LevelError then Silent else emit l Line)"

definition Fatalf :: "logger \<Rightarrow> log_effect" where
  "Fatalf l = (if lg_minLevel l > LevelFatal then Silent else emit l LineExit)"

text \<open>\<^verbatim>\<open>Close\<close> leaves the handle in place: closing it again reports an error, and later lines are lost
  without one. \<open>lg_closed\<close> is the state of that handle.\<close>

definition log_Close :: "logger \<Rightarrow> goerror option \<times> logger" where
  "log_Close l =
     (if lg_file l then (if lg_closed l then (Some ErrIO, l) else (None, l\<lparr>lg_closed := True\<rparr>))
      else (None, l))"

text \<open>The debug level is numbered above all others, so a logger asked for debug output, which is what
  the \<^verbatim>\<open>Debug\<close> option of the database does, writes nothing at all, and \<^verbatim>\<open>Fatal\<close> returns instead of
  ending the process; at the info level everything is written and \<^verbatim>\<open>Fatal\<close> ends it.\<close>
theorem debug_level_silences:
  "(\<exists>l. NewLogger [] LevelDebug True False opened = Some l \<and>
      Info l = Silent \<and> Warn l = Silent \<and> Error l = Silent \<and> Fatal l = Silent) \<and>
   (\<exists>l. NewLogger [] LevelInfo True False opened = Some l \<and>
      Info l = Line \<and> Warn l = Line \<and> Error l = Line \<and> Fatal l = LineExit)"
  by (simp add: NewLogger_def level_defs Info_def Warn_def Error_def Fatal_def emit_def buildWriter_def)

text \<open>Logging to a file without a path makes a writer without a file.\<close>

lemma file_without_path_panics:
  "\<exists>l. NewLogger [] LevelInfo c True opened = Some l \<and> Info l = LogPanic"
  by (simp add: NewLogger_def level_defs Info_def emit_def buildWriter_def)

end
