(* ===== verification/Backup.thy ===== *)
theory Backup
  imports Prelude
begin

text \<open>
  Backups, \<^verbatim>\<open>modules/backup/backup.go\<close>. The backup directory is a map from file names to contents; its
  own path holds no character that \<^verbatim>\<open>filepath.Glob\<close> interprets. A time stamp is the string that
  \<^verbatim>\<open>time.Format("20060102_150405")\<close> yields: it has the resolution of a second.
\<close>

record backup_mgr =
  bk_dir :: string
  bk_keep :: nat
  bk_last :: nat                      \<comment> \<open>\<^verbatim>\<open>lastBackup\<close>; 0 is the zero time\<close>

type_synonym bdir = "(string, bytes) gomap"

definition backup_NewManager :: "string \<Rightarrow> nat \<Rightarrow> backup_mgr" where
  "backup_NewManager dir keep = \<lparr>bk_dir = dir, bk_keep = keep, bk_last = 0\<rparr>"

definition backup_name :: "string \<Rightarrow> string" where
  "backup_name ts = ''backup_'' @ ts @ ''.db''"

text \<open>The pattern \<^verbatim>\<open>backup_*.db\<close>.\<close>

definition is_backup :: "string \<Rightarrow> bool" where
  "is_backup name \<longleftrightarrow> 10 \<le> length name \<and> take 7 name = ''backup_'' \<and> drop (length name - 3) name = ''.db''"

text \<open>\<open>written\<close>: how many bytes a failing \<^verbatim>\<open>os.WriteFile\<close> leaves; \<^const>\<open>None\<close> when it succeeds.\<close>

definition CreateBackup :: "bytes res \<Rightarrow> string \<Rightarrow> nat \<Rightarrow> nat option \<Rightarrow> backup_mgr \<Rightarrow> bdir \<Rightarrow>
    goerror option \<times> backup_mgr \<times> bdir" where
  "CreateBackup snapshot ts now written m d =
     (case snapshot of
        Inl err \<Rightarrow> (Some err, m, d)
      | Inr data \<Rightarrow>
          (case written of
             Some n \<Rightarrow> (Some ErrIO, m, gm_put (backup_name ts) (take n data) d)
           | None \<Rightarrow> (None, m\<lparr>bk_last := now\<rparr>, gm_put (backup_name ts) data d)))"

definition RestoreBackup :: "string \<Rightarrow> bdir \<Rightarrow> bytes res" where
  "RestoreBackup name d = (case gm_get d name of None \<Rightarrow> Inl ErrIO | Some data \<Rightarrow> Inr data)"

definition ListBackups :: "bdir \<Rightarrow> string list" where
  "ListBackups d = sort (filter is_backup (map fst d))"

text \<open>The goroutine \<^verbatim>\<open>cleanOldBackups\<close>; \<open>stuck\<close> are the names whose removal fails.\<close>

definition cleanOldBackups :: "(string \<Rightarrow> bool) \<Rightarrow> backup_mgr \<Rightarrow> bdir \<Rightarrow> bdir" where
  "cleanOldBackups stuck m d =
     (let files = ListBackups d in
      if length files \<le> bk_keep m then d
      else fold (\<lambda>f d. if stuck f then d else gm_del f d) (take (length files - bk_keep m) files) d)"

definition GetLatestBackup :: "bdir \<Rightarrow> string res" where
  "GetLatestBackup d =
     (let backups = ListBackups d in if backups = [] then Inl ErrNoBackups else Inr (last backups))"

definition backup_GetStats :: "backup_mgr \<Rightarrow> bdir \<Rightarrow> nat \<times> nat \<times> string" where
  "backup_GetStats m d = (length (ListBackups d), bk_last m, bk_dir m)"

section \<open>Properties\<close>

lemma is_backup_name [simp]: "is_backup (backup_name ts)"
  by (simp add: is_backup_def backup_name_def)

lemma set_ListBackups: "set (ListBackups d) = {n \<in> fst ` set d. is_backup n}"
  by (auto simp: ListBackups_def)

lemma sorted_ListBackups [simp]: "sorted (ListBackups d)"
  by (simp add: ListBackups_def)

lemma distinct_ListBackups: "gm_wf d \<Longrightarrow> distinct (ListBackups d)"
  by (simp add: ListBackups_def gm_wf_def)

lemma map_fst_del: "map fst (gm_del k d) = filter (\<lambda>x. x \<noteq> k) (map fst d)"
  by (induction d) (auto simp: AList.delete_eq)

lemma fold_del:
  "gm_wf d \<Longrightarrow> gm_wf (fold gm_del ks d) \<and> map fst (fold gm_del ks d) = filter (\<lambda>x. x \<notin> set ks) (map fst d) \<and>
   (\<forall>x. gm_get (fold gm_del ks d) x = (if x \<in> set ks then None else gm_get d x))"
proof (induction ks arbitrary: d)
  case Nil
  then show ?case by simp
next
  case (Cons k ks)
  then have "gm_wf (gm_del k d)"
    by simp
  from Cons.IH [OF this] show ?case
    by (auto simp: map_fst_del intro: filter_cong)
qed

lemma cleanOldBackups_keeps:
  assumes "gm_wf d"
  shows "ListBackups (cleanOldBackups (\<lambda>_. False) m d) = drop (length (ListBackups d) - bk_keep m) (ListBackups d) \<and>
     (\<forall>x. (x \<in> set (ListBackups (cleanOldBackups (\<lambda>_. False) m d)) \<or> \<not> is_backup x) \<longrightarrow>
        gm_get (cleanOldBackups (\<lambda>_. False) m d) x = gm_get d x) \<and>
     (\<forall>x \<in> set (ListBackups d) - set (ListBackups (cleanOldBackups (\<lambda>_. False) m d)).
        \<forall>y \<in> set (ListBackups (cleanOldBackups (\<lambda>_. False) m d)). x < y)"
proof -
  let ?n = "length (ListBackups d) - bk_keep m"
  let ?del = "take ?n (ListBackups d)" and ?keep = "drop ?n (ListBackups d)"
  have clean: "cleanOldBackups (\<lambda>_. False) m d = fold gm_del ?del d"
    by (simp add: cleanOldBackups_def Let_def)
  have split: "ListBackups d = ?del @ ?keep"
    by simp
  have dist: "distinct (?del @ ?keep)" and sort: "sorted (?del @ ?keep)"
    using distinct_ListBackups [OF assms] by (simp_all del: distinct_append sorted_append)
  then have disj: "set ?del \<inter> set ?keep = {}" and le: "\<And>x y. x \<in> set ?del \<Longrightarrow> y \<in> set ?keep \<Longrightarrow> x \<le> y"
    unfolding distinct_append sorted_append by blast+
  have "filter is_backup (filter (\<lambda>x. x \<notin> set ?del) (map fst d)) =
      filter (\<lambda>x. x \<notin> set ?del) (filter is_backup (map fst d))"
    by (simp add: conj_commute)
  then have "ListBackups (fold gm_del ?del d) = filter (\<lambda>x. x \<notin> set ?del) (ListBackups d)"
    using fold_del [OF assms, of ?del] by (simp add: ListBackups_def filter_sort)
  also have "\<dots> = filter (\<lambda>x. x \<notin> set ?del) ?del @ filter (\<lambda>x. x \<notin> set ?del) ?keep"
    by (subst (3) split) (rule filter_append)
  also have "\<dots> = ?keep"
    using disj by (auto simp: filter_id_conv filter_empty_conv)
  finally have kept: "ListBackups (fold gm_del ?del d) = ?keep" .
  have "x < y" if "x \<in> set (ListBackups d) - set ?keep" "y \<in> set ?keep" for x y
  proof -
    have "x \<in> set ?del"
      using that(1) split by (metis Diff_iff Un_iff set_append)
    with le [of x y] disj that(2) show ?thesis
      by (metis IntI emptyE order_le_imp_less_or_eq)
  qed
  moreover have "gm_get (fold gm_del ?del d) x = gm_get d x" if "x \<in> set ?keep \<or> \<not> is_backup x" for x
  proof -
    have "x \<notin> set ?del"
      using that disj set_ListBackups [of d] by (metis (no_types, lifting) IntI emptyE in_set_takeD mem_Collect_eq)
    then show ?thesis
      using fold_del [OF assms, of ?del] by simp
  qed
  ultimately show ?thesis
    unfolding clean kept by blast
qed

text \<open>C35: cleaning up, when no removal fails, leaves exactly the \<open>KeepCount\<close> last names in order of time, with
  their contents, and every file that is not a backup; each deleted backup is older than each kept
  one.\<close>
theorem cleanOldBackups_keeps_newest:
  assumes "gm_wf d"
  shows "ListBackups (cleanOldBackups (\<lambda>_. False) m d) = drop (length (ListBackups d) - bk_keep m) (ListBackups d) \<and>
     (\<forall>x. (x \<in> set (ListBackups (cleanOldBackups (\<lambda>_. False) m d)) \<or> \<not> is_backup x) \<longrightarrow>
        gm_get (cleanOldBackups (\<lambda>_. False) m d) x = gm_get d x) \<and>
     (\<forall>x \<in> set (ListBackups d) - set (ListBackups (cleanOldBackups (\<lambda>_. False) m d)).
        \<forall>y \<in> set (ListBackups (cleanOldBackups (\<lambda>_. False) m d)). x < y)"
  using assms by (rule cleanOldBackups_keeps)

theorem cleanOldBackups_keeps_newest_witness:
  "ListBackups (cleanOldBackups (\<lambda>_. False) (backup_NewManager ''b'' 1)
     [(backup_name ''2'', [2]), (''x'', [3]), (backup_name ''1'', [1])]) =
   drop (length (ListBackups [(backup_name ''2'', [2]), (''x'', [3]), (backup_name ''1'', [1])]) - 1)
     (ListBackups [(backup_name ''2'', [2]), (''x'', [3]), (backup_name ''1'', [1])])"
  using cleanOldBackups_keeps_newest [of "[(backup_name ''2'', [2]), (''x'', [3]), (backup_name ''1'', [1])]"
      "backup_NewManager ''b'' 1"]
  by (simp add: gm_wf_def backup_name_def backup_NewManager_def)

text \<open>After a backup with the latest time stamp, \<^verbatim>\<open>GetLatestBackup\<close> names it and restoring it gives the
  serialized snapshot back, also after the clean-up as long as at least one backup is kept.\<close>
theorem latest_backup_restores:
  assumes "gm_wf d" "\<forall>n \<in> set (ListBackups d). n < backup_name ts" "0 < bk_keep m"
    and "CreateBackup (Inr data) ts now None m d = (None, m', d')"
  shows "GetLatestBackup d' = Inr (backup_name ts) \<and> RestoreBackup (backup_name ts) d' = Inr data \<and>
     GetLatestBackup (cleanOldBackups (\<lambda>_. False) m' d') = Inr (backup_name ts) \<and>
     RestoreBackup (backup_name ts) (cleanOldBackups (\<lambda>_. False) m' d') = Inr data"
proof -
  have d': "d' = gm_put (backup_name ts) data d" and keep: "bk_keep m' = bk_keep m"
    using assms(4) by (auto simp: CreateBackup_def)
  then have wf: "gm_wf d'"
    using assms(1) by simp
  let ?l = "ListBackups d'"
  have mem: "backup_name ts \<in> set ?l" and le: "\<forall>n \<in> set ?l. n \<le> backup_name ts"
    using assms(2) by (auto simp: set_ListBackups d' dom_update image_iff less_imp_le)
  then have ne: "?l \<noteq> []"
    by auto
  have last: "last ?l = backup_name ts"
  proof -
    have "backup_name ts \<le> last ?l"
      using mem ne sorted_ListBackups [of d'] by (metis append_butlast_last_id in_set_conv_decomp
          Un_iff list.set(1,2) set_append singletonD sorted_append order_refl)
    then show ?thesis
      using le ne by (meson last_in_set order_antisym)
  qed
  let ?c = "cleanOldBackups (\<lambda>_. False) m' d'"
  have clean: "ListBackups ?c = drop (length ?l - bk_keep m') ?l"
    "\<forall>x. x \<in> set (ListBackups ?c) \<longrightarrow> gm_get ?c x = gm_get d' x"
    using cleanOldBackups_keeps [OF wf, of m'] by blast+
  have "length ?l - bk_keep m' < length ?l"
    using ne keep assms(3) by (simp add: diff_less)
  then have "ListBackups ?c \<noteq> []" "last (ListBackups ?c) = backup_name ts"
    using clean(1) last by (simp_all add: last_drop)
  moreover from this have "backup_name ts \<in> set (ListBackups ?c)"
    by (metis last_in_set)
  ultimately show ?thesis
    using ne last clean(2) by (simp add: GetLatestBackup_def Let_def RestoreBackup_def d')
qed

theorem latest_backup_restores_witness:
  "GetLatestBackup (gm_put (backup_name ''2'') [9] [(backup_name ''1'', [1])]) = Inr (backup_name ''2'')"
  using latest_backup_restores [of "[(backup_name ''1'', [1])]" "''2''" "backup_NewManager ''b'' 1" "[9]" 4
      "(backup_NewManager ''b'' 1)\<lparr>bk_last := 4\<rparr>" "gm_put (backup_name ''2'') [9] [(backup_name ''1'', [1])]"]
  by (simp add: gm_wf_def backup_NewManager_def CreateBackup_def backup_name_def ListBackups_def is_backup_def)

end
