(* ===== verification/Config.thy ===== *)
theory Config
  imports Keys GoValue
begin

text \<open>
  Paths and configuration: \<^verbatim>\<open>modules/config/config.go\<close> and the configuration part of
  \<^verbatim>\<open>database.go\<close>. \<^verbatim>\<open>path/filepath\<close> is written out for Unix. The environment gives the home directory,
  when there is one, and which directories \<^verbatim>\<open>os.MkdirAll\<close> can make. \<^const>\<open>None\<close> is the end of the process
  in \<^verbatim>\<open>log.Fatalf\<close>. Durations are nanoseconds.
\<close>

section \<open>path/filepath\<close>

fun split_path :: "string \<Rightarrow> string \<Rightarrow> string list" where
  "split_path acc [] = [acc]"
| "split_path acc (c # cs) = (if c = CHR ''/'' then acc # split_path [] cs else split_path (acc @ [c]) cs)"

text \<open>The components of a path, later ones first in \<open>out\<close>.\<close>

fun clean_comps :: "bool \<Rightarrow> string list \<Rightarrow> string list \<Rightarrow> string list" where
  "clean_comps rooted out [] = rev out"
| "clean_comps rooted out (c # cs) =
     (if c = [] \<or> c = ''.'' then clean_comps rooted out cs
      else if c = ''..'' then
        (if out \<noteq> [] \<and> hd out \<noteq> ''..'' then clean_comps rooted (tl out) cs
         else if rooted then clean_comps rooted out cs
         else clean_comps rooted (c # out) cs)
      else clean_comps rooted (c # out) cs)"

definition IsAbs :: "string \<Rightarrow> bool" where
  "IsAbs p \<longleftrightarrow> take 1 p = ''/''"

definition Clean :: "string \<Rightarrow> string" where
  "Clean p =
     (let body = join_with ''/'' (clean_comps (IsAbs p) [] (split_path [] p))
      in if IsAbs p then CHR ''/'' # body else if body = [] then ''.'' else body)"

fun Join :: "string list \<Rightarrow> string" where
  "Join [] = []"
| "Join (e # es) = (if e = [] then Join es else Clean (join_with ''/'' (e # es)))"

section \<open>config.go\<close>

record path_env =
  pe_home :: "string option"
  pe_mkdir :: "string \<Rightarrow> bool"

definition getHomeSubDir :: "path_env \<Rightarrow> string \<Rightarrow> string \<Rightarrow> string option" where
  "getHomeSubDir env subdir dir =
     (if IsAbs dir then
        (let p = (if subdir = [] then dir else Join [dir, subdir])
         in if pe_mkdir env p then Some p else None)
      else (case pe_home env of
              None \<Rightarrow> None
            | Some home \<Rightarrow>
                (let p = (if subdir = [] then Join [home, dir] else Join [home, dir, subdir])
                 in if pe_mkdir env p then Some p else None)))"

definition GetHomeSubDir :: "path_env \<Rightarrow> string \<Rightarrow> string \<Rightarrow> string option" where
  "GetHomeSubDir env subdir dir = getHomeSubDir env subdir dir"

definition GetStateDBPath :: "path_env \<Rightarrow> string \<Rightarrow> string option" where
  "GetStateDBPath env dir = map_option (\<lambda>p. Join [p, ''state.rdb'']) (getHomeSubDir env ''state'' dir)"

section \<open>The configuration of the database\<close>

record db_config =
  dc_DirPath :: string
  dc_BackupDir :: string
  dc_EncryptionKey :: key
  dc_EnableWAL :: bool
  dc_EnableBackup :: bool
  dc_EnableIndexes :: bool
  dc_EnableTransactions :: bool
  dc_EnableCompression :: bool
  dc_SaveInterval :: int
  dc_WALSyncInterval :: int
  dc_WatchInterval :: int
  dc_BufferSize :: int
  dc_MaxConnections :: int
  dc_MaxRetries :: int
  dc_RetryDelay :: int
  dc_BackupInterval :: int
  dc_Debug :: bool
  dc_MetricsEnabled :: bool
  dc_OpTimeout :: int
  dc_BatchTimeout :: int

definition default_config :: "string \<Rightarrow> db_config" where
  "default_config backup_dir =
     \<lparr>dc_DirPath = ''data'', dc_BackupDir = backup_dir, dc_EncryptionKey = zero_key, dc_EnableWAL = True,
      dc_EnableBackup = True, dc_EnableIndexes = True, dc_EnableTransactions = True,
      dc_EnableCompression = False, dc_SaveInterval = 5000000000, dc_WALSyncInterval = 1000000000,
      dc_WatchInterval = 3000000000, dc_BufferSize = 1000, dc_MaxConnections = 1000, dc_MaxRetries = 3,
      dc_RetryDelay = 100000000, dc_BackupInterval = 3600000000000, dc_Debug = False,
      dc_MetricsEnabled = True, dc_OpTimeout = 5000000000, dc_BatchTimeout = 30000000000\<rparr>"

definition DefaultConfig :: "path_env \<Rightarrow> db_config option" where
  "DefaultConfig env = map_option default_config (GetHomeSubDir env ''backups'' ''data'')"

definition Init_config :: "path_env \<Rightarrow> key \<Rightarrow> string \<Rightarrow> bool \<Rightarrow> db_config option" where
  "Init_config env keyDb dirPath debug =
     map_option (\<lambda>c. c\<lparr>dc_DirPath := dirPath, dc_EncryptionKey := keyDb, dc_Debug := debug\<rparr>) (DefaultConfig env)"

definition validateConfig :: "db_config \<Rightarrow> goerror option" where
  "validateConfig c =
     (if dc_DirPath c = [] then Some (ErrConfig ''DirPath'')
      else if dc_SaveInterval c < 100000000 then Some (ErrConfig ''SaveInterval'')
      else if dc_BufferSize c < 10 then Some (ErrConfig ''BufferSize'')
      else None)"

definition setupDirectories :: "path_env \<Rightarrow> db_config \<Rightarrow> goerror option" where
  "setupDirectories env c =
     (let dirs = dc_DirPath c # (if dc_EnableBackup c then [dc_BackupDir c] else [])
      in if list_all (pe_mkdir env) dirs then None else Some ErrIO)"

text \<open>The first part of \<^verbatim>\<open>InitWithConfig\<close>: the effective configuration.\<close>

definition effective_config :: "path_env \<Rightarrow> db_config option \<Rightarrow> db_config res option" where
  "effective_config env cfg =
     (case (case cfg of None \<Rightarrow> DefaultConfig env | Some c \<Rightarrow> Some c) of
        None \<Rightarrow> None
      | Some c \<Rightarrow>
          (case GetHomeSubDir env ''backups'' ''data'' of
             None \<Rightarrow> None
           | Some defaultBackupDir \<Rightarrow>
               (case (if dc_BackupDir c = defaultBackupDir \<and> dc_DirPath c \<noteq> ''data''
                      then map_option (\<lambda>b. c\<lparr>dc_BackupDir := b\<rparr>) (GetHomeSubDir env ''backups'' (dc_DirPath c))
                      else Some c) of
                  None \<Rightarrow> None
                | Some c' \<Rightarrow>
                    Some (case validateConfig c' of
                            Some err \<Rightarrow> Inl err
                          | None \<Rightarrow> (case setupDirectories env c' of Some err \<Rightarrow> Inl err | None \<Rightarrow> Inr c')))))"

section \<open>Properties\<close>

lemma split_path_plain: "CHR ''/'' \<notin> set s \<Longrightarrow> split_path acc s = [acc @ s]"
  by (induction s arbitrary: acc) auto

lemma split_path_sep: "CHR ''/'' \<notin> set s \<Longrightarrow> split_path acc (s @ CHR ''/'' # t) = (acc @ s) # split_path [] t"
  by (induction s arbitrary: acc) auto

definition comp_ok :: "string \<Rightarrow> bool" where
  "comp_ok s \<longleftrightarrow> s \<noteq> [] \<and> s \<noteq> ''.'' \<and> s \<noteq> ''..'' \<and> CHR ''/'' \<notin> set s"

lemma split_join: "list_all comp_ok cs \<Longrightarrow> cs \<noteq> [] \<Longrightarrow> split_path [] (join_with ''/'' cs) = cs"
  by (induction "''/''" cs rule: join_with.induct)
    (simp_all add: comp_ok_def split_path_plain split_path_sep)

lemma clean_comps_ok: "list_all comp_ok cs \<Longrightarrow> clean_comps r out cs = rev out @ cs"
  by (induction cs arbitrary: out) (simp_all add: comp_ok_def)

lemma join_with_append:
  "xs \<noteq> [] \<Longrightarrow> ys \<noteq> [] \<Longrightarrow> join_with sep (xs @ ys) = join_with sep xs @ sep @ join_with sep ys"
proof (induction sep xs rule: join_with.induct)
  case (2 sep s)
  then show ?case by (cases ys) simp_all
qed simp_all

definition abs_path :: "string list \<Rightarrow> string" where
  "abs_path cs = CHR ''/'' # join_with ''/'' cs"

lemma Clean_abs: "list_all comp_ok cs \<Longrightarrow> cs \<noteq> [] \<Longrightarrow> Clean (abs_path cs) = abs_path cs"
  by (simp add: Clean_def abs_path_def IsAbs_def Let_def split_join clean_comps_ok)

lemma Join_abs:
  assumes "list_all comp_ok cs" "cs \<noteq> []" "comp_ok s"
  shows "Join [abs_path cs, s] = abs_path (cs @ [s])"
proof -
  have "join_with ''/'' [abs_path cs, s] = abs_path (cs @ [s])"
    using assms(2) by (simp add: abs_path_def join_with_append)
  moreover have "abs_path cs \<noteq> []"
    by (simp add: abs_path_def)
  ultimately show ?thesis
    using Clean_abs [of "cs @ [s]"] assms by simp
qed

text \<open>For an absolute directory the state file and the backups lie below that directory; the home
  directory plays no role in these two paths.\<close>
theorem absolute_paths_stay:
  assumes "list_all comp_ok cs" "cs \<noteq> []" "\<And>p. pe_mkdir env p"
  shows "GetStateDBPath env (abs_path cs) = Some (abs_path cs @ ''/state/state.rdb'') \<and>
     GetHomeSubDir env ''backups'' (abs_path cs) = Some (abs_path cs @ ''/backups'')"
proof -
  have abs: "IsAbs (abs_path cs)"
    by (simp add: IsAbs_def abs_path_def)
  have ext: "abs_path (cs @ [s]) = abs_path cs @ ''/'' @ s" for s
    using assms(2) by (simp add: abs_path_def join_with_append)
  have ok: "comp_ok ''state''" "comp_ok ''backups''" "comp_ok ''state.rdb''"
    by (simp_all add: comp_ok_def)
  have "Join [abs_path cs, ''state''] = abs_path (cs @ [''state''])"
    "Join [abs_path cs, ''backups''] = abs_path (cs @ [''backups''])"
    "Join [abs_path (cs @ [''state'']), ''state.rdb''] = abs_path ((cs @ [''state'']) @ [''state.rdb''])"
    using assms(1,2) ok by (intro Join_abs; simp)+
  then show ?thesis
    using assms(3) abs ext [of "''state''"] ext [of "''backups''"] assms(2)
    by (simp add: GetStateDBPath_def GetHomeSubDir_def getHomeSubDir_def Let_def abs_path_def join_with_append
        del: Join.simps)
qed

theorem absolute_paths_stay_witness:
  "GetStateDBPath \<lparr>pe_home = None, pe_mkdir = \<lambda>_. True\<rparr> ''/var/db'' = Some ''/var/db/state/state.rdb''"
  using absolute_paths_stay [of "[''var'', ''db'']" "\<lparr>pe_home = None, pe_mkdir = \<lambda>_. True\<rparr>"]
  by (simp add: comp_ok_def abs_path_def)

text \<open>An absolute directory does not free the program from the home directory: opening a database
  always makes \<^verbatim>\<open>data/backups\<close> under the home directory first, and ends the process when there is no
  home directory, whatever the configuration says.\<close>
theorem InitWithConfig_needs_home:
  "effective_config (env\<lparr>pe_home := None\<rparr>) cfg = None \<and>
   (effective_config env cfg \<noteq> None \<longrightarrow>
     (\<exists>home. pe_home env = Some home \<and> pe_mkdir env (Join [home, ''data'', ''backups''])))"
proof
  have rel: "\<not> IsAbs ''data''"
    by (simp add: IsAbs_def)
  then show "effective_config (env\<lparr>pe_home := None\<rparr>) cfg = None"
    by (auto simp: effective_config_def GetHomeSubDir_def getHomeSubDir_def split: option.splits)
  show "effective_config env cfg \<noteq> None \<longrightarrow>
     (\<exists>home. pe_home env = Some home \<and> pe_mkdir env (Join [home, ''data'', ''backups'']))"
    using rel
    by (auto simp: effective_config_def GetHomeSubDir_def getHomeSubDir_def Let_def
        simp del: Join.simps split: option.splits if_splits)
qed

text \<open>Hypothesis-bearing part of the property at a concrete environment.\<close>

theorem InitWithConfig_needs_home_witness:
  "effective_config \<lparr>pe_home = None, pe_mkdir = \<lambda>_. True\<rparr> (Some (default_config ''/b'')) = None"
  using InitWithConfig_needs_home [of "\<lparr>pe_home = None, pe_mkdir = \<lambda>_. True\<rparr>" "Some (default_config ''/b'')"]
  by simp

end
