(* ===== verification/Database.thy ===== *)
theory Database
  imports "HOL-Library.Multiset" Index Tx Storage Metrics Config WalCodec Backup
begin

text \<open>
  The database, \<^verbatim>\<open>database.go\<close> and \<^verbatim>\<open>flush.go\<close>.

  The state is the \<^verbatim>\<open>Database\<close> struct. The write channel is a list, the worker's local slice of
  operations is \<open>db_pending\<close>, and the answers sent on the result channels are \<open>db_replies\<close>, by the
  number of the channel. The log is a parameter: a state of any type with the operation \<open>append\<close>.
  \<open>db_waiting\<close> are the operations of the clients that have counted themselves in \<^verbatim>\<open>pendingOps\<close> and wait in
  their \<^verbatim>\<open>select\<close> for the channel; \<open>db_workerIdle\<close> tells whether the worker is at its second \<^verbatim>\<open>select\<close>.
  Four ghost fields only observe: \<open>db_accepted\<close> lists the operations the channel has taken,
  \<open>db_wal_failed\<close> is set when an append fails, \<open>db_panicked\<close> when a Go panic ends the process, and
  \<open>db_index_raced\<close> when an index was built from anything but the records of its table.
\<close>

definition opCreate :: string where "opCreate = ''create''"
definition opWrite :: string where "opWrite = ''write''"
definition opDelete :: string where "opDelete = ''delete''"
definition opBatch :: string where "opBatch = ''batch''"

lemmas db_op_defs = opCreate_def opWrite_def opDelete_def opBatch_def

definition maxBatchSize :: nat where
  "maxBatchSize = 100000"

record wop =
  op_type :: string
  op_table :: string
  op_key :: string
  op_value :: goval
  op_records :: "(string \<times> goval) list"     \<comment> \<open>in the order in which the loop visits them\<close>
  op_ch :: nat                               \<comment> \<open>the result channel\<close>

record 'w db =
  db_data :: tables
  db_storage :: engine
  db_wal :: "'w option"
  db_indexMgr :: "manager option"
  db_txManager :: "txs option"
  db_backupMgr :: "backup_mgr option"
  db_metrics :: "collector option"
  db_config :: db_config
  db_closed :: bool
  db_ctxDone :: bool
  db_waiting :: "wop list"
  db_writeBuffer :: "wop list"
  db_bufferClosed :: bool
  db_pending :: "wop list"
  db_workerIdle :: bool
  db_workerDone :: bool
  db_dirtyFlag :: bool
  db_lastLoaded :: nat
  db_lastSave :: nat
  db_pendingOps :: "64 word"
  db_version :: "64 word"
  db_replies :: "(nat \<times> goerror option) list"
  db_accepted :: "wop list"
  db_wal_failed :: bool
  db_panicked :: bool
  db_index_raced :: bool

section \<open>Recovery\<close>

text \<open>Assigning \<open>db.data[table][key]\<close> when the table exists.\<close>

definition set_key :: "string \<Rightarrow> string \<Rightarrow> goval \<Rightarrow> tables \<Rightarrow> tables" where
  "set_key table key v d =
     (case gm_get d table of None \<Rightarrow> d | Some t \<Rightarrow> gm_put table (gm_put key v t) d)"

definition del_key :: "string \<Rightarrow> string \<Rightarrow> tables \<Rightarrow> tables" where
  "del_key table key d =
     (case gm_get d table of None \<Rightarrow> d | Some t \<Rightarrow> gm_put table (gm_del key t) d)"

definition ensure_table :: "string \<Rightarrow> tables \<Rightarrow> tables" where
  "ensure_table table d = (if gm_get d table = None then gm_put table [] d else d)"

definition applyWALEntry :: "wal_entry \<Rightarrow> tables \<Rightarrow> tables" where
  "applyWALEntry e d =
     (if e_op e = OpCreate then ensure_table (e_table e) d
      else if e_op e = OpWrite then set_key (e_table e) (e_key e) (e_value e) (ensure_table (e_table e) d)
      else if e_op e = OpDelete then del_key (e_table e) (e_key e) d
      else d)"

definition recoverFromWAL :: "wal_entry list \<Rightarrow> tables \<Rightarrow> tables" where
  "recoverFromWAL entries d = fold applyWALEntry entries d"

section \<open>Clients\<close>

definition Exist :: "string \<Rightarrow> 'w db \<Rightarrow> bool res" where
  "Exist table db =
     (if db_closed db then Inl ErrDatabaseClosed else Inr (gm_get (db_data db) table \<noteq> None))"

text \<open>A client counts its operation before it waits.\<close>

definition announce :: "wop \<Rightarrow> 'w db \<Rightarrow> 'w db" where
  "announce op db = db\<lparr>db_pendingOps := db_pendingOps db + 1, db_waiting := db_waiting db @ [op]\<rparr>"

text \<open>The \<^verbatim>\<open>select\<close> that hands the operation to the worker: the channel takes it, the context is done,
  or the time is over. A send on the closed channel panics.\<close>

datatype send_choice = Sent | Cancelled_send | TimedOut

definition enqueue :: "send_choice \<Rightarrow> wop \<Rightarrow> 'w db \<Rightarrow> goerror option \<times> 'w db" where
  "enqueue choice op db =
     (case choice of
        Sent \<Rightarrow>
          if db_bufferClosed db then (Some ErrPanic, db\<lparr>db_panicked := True\<rparr>)
          else (None, db\<lparr>db_waiting := remove1 op (db_waiting db), db_writeBuffer := db_writeBuffer db @ [op],
                          db_accepted := db_accepted db @ [op]\<rparr>)
      | Cancelled_send \<Rightarrow>
          (Some ErrShuttingDown, db\<lparr>db_waiting := remove1 op (db_waiting db), db_pendingOps := db_pendingOps db - 1\<rparr>)
      | TimedOut \<Rightarrow>
          (Some ErrTimeout, db\<lparr>db_waiting := remove1 op (db_waiting db), db_pendingOps := db_pendingOps db - 1\<rparr>))"

text \<open>Whether a choice is possible: a full channel takes nothing.\<close>

definition can_choose :: "send_choice \<Rightarrow> 'w db \<Rightarrow> bool" where
  "can_choose choice db = (case choice of
      Sent \<Rightarrow> db_bufferClosed db \<or> length (db_writeBuffer db) < nat (dc_BufferSize (db_config db))
    | Cancelled_send \<Rightarrow> db_ctxDone db
    | TimedOut \<Rightarrow> True)"

definition mk_op :: "nat \<Rightarrow> string \<Rightarrow> string \<Rightarrow> string \<Rightarrow> goval \<Rightarrow> (string \<times> goval) list \<Rightarrow> wop" where
  "mk_op ch ty table key v records =
     \<lparr>op_type = ty, op_table = table, op_key = key, op_value = v, op_records = records, op_ch = ch\<rparr>"

text \<open>The client's part up to its \<^verbatim>\<open>select\<close>, with the operation it hands over there; \<open>ch\<close> is the result
  channel on which it gets the answer.\<close>

definition Create :: "nat \<Rightarrow> string \<Rightarrow> 'w db \<Rightarrow> wop res \<times> 'w db" where
  "Create ch table db =
     (if db_closed db then (Inl ErrDatabaseClosed, db)
      else (let op = mk_op ch opCreate table [] VNil [] in (Inr op, announce op db)))"

definition Write :: "nat \<Rightarrow> string \<Rightarrow> string \<Rightarrow> goval \<Rightarrow> 'w db \<Rightarrow> wop res \<times> 'w db" where
  "Write ch table key v db =
     (if db_closed db then (Inl ErrDatabaseClosed, db)
      else (let op = mk_op ch opWrite table key v [] in (Inr op, announce op db)))"

definition WriteBatch :: "nat \<Rightarrow> string \<Rightarrow> (string \<times> goval) list \<Rightarrow> 'w db \<Rightarrow> wop res \<times> 'w db" where
  "WriteBatch ch table records db =
     (if db_closed db then (Inl ErrDatabaseClosed, db)
      else if length records > maxBatchSize then (Inl ErrBatchTooLarge, db)
      else (let op = mk_op ch opBatch table [] VNil records in (Inr op, announce op db)))"

definition Delete :: "nat \<Rightarrow> string \<Rightarrow> string \<Rightarrow> 'w db \<Rightarrow> wop res \<times> 'w db" where
  "Delete ch table key db =
     (if db_closed db then (Inl ErrDatabaseClosed, db)
      else (let op = mk_op ch opDelete table key VNil [] in (Inr op, announce op db)))"

definition on_metrics :: "(collector \<Rightarrow> collector) \<Rightarrow> 'w db \<Rightarrow> 'w db" where
  "on_metrics f db = db\<lparr>db_metrics := map_option f (db_metrics db)\<rparr>"

text \<open>The deferred part of \<^verbatim>\<open>Write\<close>.\<close>

definition Write_done :: "64 word \<Rightarrow> 'w db \<Rightarrow> 'w db" where
  "Write_done elapsed db = on_metrics (RecordWriteLatency elapsed) db"

text \<open>\<^verbatim>\<open>Read\<close> up to the conversion into the caller's variable.\<close>

definition Read :: "64 word \<Rightarrow> string \<Rightarrow> string \<Rightarrow> 'w db \<Rightarrow> goval res \<times> 'w db" where
  "Read elapsed table key db =
     (let late = on_metrics (RecordReadLatency elapsed) in
      if db_closed db then (Inl ErrDatabaseClosed, late db)
      else (case gm_get (db_data db) table of
              None \<Rightarrow> (Inl (ErrTableMissing table), late db)
            | Some t \<Rightarrow>
                (case gm_get t key of
                   None \<Rightarrow> (Inl (ErrKeyMissing key), late db)
                 | Some v \<Rightarrow> (Inr v, late (on_metrics IncrementReads db)))))"

text \<open>\<^verbatim>\<open>ReadBatch\<close> into a slice of \<^verbatim>\<open>any\<close>: copies of the records, in the order of the map.\<close>

definition ReadBatch :: "golib \<Rightarrow> string \<Rightarrow> 'w db \<Rightarrow> goval list res \<times> 'w db" where
  "ReadBatch L table db =
     (if db_closed db then (Inl ErrDatabaseClosed, db)
      else (case gm_get (db_data db) table of
              None \<Rightarrow> (Inl (ErrTableMissing table), db)
            | Some t \<Rightarrow> (Inr (map (\<lambda>(k, v). deepCopyValue L v) t), on_metrics IncrementReads db)))"

section \<open>Indexes\<close>

text \<open>\<^verbatim>\<open>CreateIndex\<close> fetches the map of the table under the read lock, \<open>tableData\<close>. It releases the lock, and
  the index manager then loops over that map while others may change it: \<open>seen\<close> are the records the
  loop yields.\<close>

definition tableData :: "string \<Rightarrow> 'w db \<Rightarrow> (string \<times> goval) list" where
  "tableData table db = (case gm_get (db_data db) table of None \<Rightarrow> [] | Some t \<Rightarrow> t)"

definition db_CreateIndex :: "golib \<Rightarrow> string \<Rightarrow> string \<Rightarrow> (string \<times> goval) list \<Rightarrow> 'w db \<Rightarrow> goerror option \<times> 'w db" where
  "db_CreateIndex L table field seen db =
     (case db_indexMgr db of
        None \<Rightarrow> (Some ErrIndexesDisabled, db)
      | Some m \<Rightarrow>
          if \<not> dc_EnableIndexes (db_config db) then (Some ErrIndexesDisabled, db)
          else (case CreateIndex L table field seen m of
                  Inl e \<Rightarrow> (Some e, db\<lparr>db_panicked := True\<rparr>)
                | Inr m' \<Rightarrow>
                    (None, db\<lparr>db_indexMgr := Some m',
                              db_index_raced := (db_index_raced db \<or> mset seen \<noteq> mset (tableData table db))\<rparr>)))"

fun pick :: "(string, goval) gomap \<Rightarrow> string list \<Rightarrow> goval list" where
  "pick t [] = []"
| "pick t (k # ks) = (case gm_get t k of None \<Rightarrow> pick t ks | Some v \<Rightarrow> v # pick t ks)"

text \<open>\<^verbatim>\<open>QueryByIndex\<close> asks the index in one state, \<open>db\<close>, and reads the records under the read lock in a later
  one, \<open>db'\<close>.\<close>

definition QueryByIndex :: "golib \<Rightarrow> string \<Rightarrow> string \<Rightarrow> goval \<Rightarrow> 'w db \<Rightarrow> 'w db \<Rightarrow> goval list res" where
  "QueryByIndex L table field v db db' =
     (case db_indexMgr db of
        None \<Rightarrow> Inl ErrIndexesDisabled
      | Some m \<Rightarrow>
          if \<not> dc_EnableIndexes (db_config db) then Inl ErrIndexesDisabled
          else (case Query L table field v m of
                  Inl e \<Rightarrow> Inl e
                | Inr keys \<Rightarrow>
                    Inr (case gm_get (db_data db') table of None \<Rightarrow> [] | Some t \<Rightarrow> pick t keys)))"

section \<open>Transactions\<close>

definition copy_tables :: "golib \<Rightarrow> tables \<Rightarrow> tables" where
  "copy_tables L d = map (\<lambda>(t, r). (t, map (\<lambda>(k, v). (k, deepCopyValue L v)) r)) d"

definition createSnapshot :: "golib \<Rightarrow> 'w db \<Rightarrow> tables \<times> 64 word" where
  "createSnapshot L db = (copy_tables L (db_data db), db_version db)"

definition BeginTransaction :: "golib \<Rightarrow> int \<Rightarrow> 'w db \<Rightarrow> nat res \<times> 'w db" where
  "BeginTransaction L now db =
     (if db_closed db then (Inl ErrDatabaseClosed, db)
      else (case db_txManager db of
              None \<Rightarrow> (Inl ErrTxDisabled, db)
            | Some m \<Rightarrow>
                if \<not> dc_EnableTransactions (db_config db) then (Inl ErrTxDisabled, db)
                else (case createSnapshot L db of (snapshot, version) \<Rightarrow>
                       (case Begin now snapshot m of (a, m') \<Rightarrow>
                         (Inr a, db\<lparr>db_txManager := Some (SetSnapshotVersion a version m')\<rparr>)))))"

text \<open>The loops of \<^verbatim>\<open>CommitTransaction\<close> over the changed tables and their keys.\<close>

definition apply_record :: "string \<Rightarrow> string \<times> goval \<Rightarrow> tables \<Rightarrow> tables" where
  "apply_record table kv d =
     (if snd kv = VNil then del_key table (fst kv) d else set_key table (fst kv) (snd kv) d)"

definition apply_changes :: "tables \<Rightarrow> tables \<Rightarrow> tables" where
  "apply_changes changes d =
     fold (\<lambda>(table, records) d. fold (apply_record table) records (ensure_table table d)) changes d"

definition CommitTransaction :: "nat \<Rightarrow> 'w db \<Rightarrow> goerror option \<times> 'w db" where
  "CommitTransaction a db =
     (case db_txManager db of
        None \<Rightarrow> (Some ErrTxDisabled, db)
      | Some m \<Rightarrow>
          (case Commit a m of
             (Inl err, m') \<Rightarrow> (Some err, db\<lparr>db_txManager := Some m'\<rparr>)
           | (Inr changes, m') \<Rightarrow>
               (let db1 = db\<lparr>db_txManager := Some m'\<rparr>;
                    snapshotVersion = SnapshotVersion a m'
                in if db_version db \<noteq> snapshotVersion
                   then (Some (ErrTxConflict snapshotVersion (db_version db)), db1)
                   else (None, db1\<lparr>db_data := apply_changes changes (db_data db),
                                   db_version := db_version db + 1, db_dirtyFlag := True\<rparr>))))"

end
