(* ===== verification/Worker.thy ===== *)
theory Worker
  imports Database
begin

text \<open>
  The worker \<^verbatim>\<open>processWriteBuffer\<close> of \<^verbatim>\<open>database.go\<close>: what a batch of operations does to the data, the
  indexes, the log, the counters and the clients that wait for an answer.
\<close>

section \<open>Helpers\<close>

definition index_call :: "(manager \<Rightarrow> manager res) \<Rightarrow> 'w db \<Rightarrow> 'w db" where
  "index_call f db =
     (case db_indexMgr db of
        None \<Rightarrow> db
      | Some m \<Rightarrow>
          (case f m of
             Inl _ \<Rightarrow> db\<lparr>db_panicked := True\<rparr>
           | Inr m' \<Rightarrow> db\<lparr>db_indexMgr := Some m'\<rparr>))"

text \<open>The loops over \<^verbatim>\<open>GetIndexedFields\<close>.\<close>

fun update_fields :: "golib \<Rightarrow> string \<Rightarrow> string \<Rightarrow> goval \<Rightarrow> goval \<Rightarrow> string list \<Rightarrow> manager \<Rightarrow> manager res" where
  "update_fields L table key old new [] m = Inr m"
| "update_fields L table key old new (f # fs) m =
     (case UpdateIndex L table f key old new m of
        Inl e \<Rightarrow> Inl e | Inr m' \<Rightarrow> update_fields L table key old new fs m')"

fun delete_fields :: "golib \<Rightarrow> string \<Rightarrow> string \<Rightarrow> goval \<Rightarrow> string list \<Rightarrow> manager \<Rightarrow> manager res" where
  "delete_fields L table key old [] m = Inr m"
| "delete_fields L table key old (f # fs) m =
     (case DeleteFromIndex L table f key old m of
        Inl e \<Rightarrow> Inl e | Inr m' \<Rightarrow> delete_fields L table key old fs m')"

definition index_update :: "golib \<Rightarrow> string \<Rightarrow> string \<Rightarrow> goval \<Rightarrow> goval \<Rightarrow> 'w db \<Rightarrow> 'w db" where
  "index_update L table key old new =
     index_call (\<lambda>m. update_fields L table key old new (GetIndexedFields table m) m)"

definition index_delete :: "golib \<Rightarrow> string \<Rightarrow> string \<Rightarrow> goval \<Rightarrow> 'w db \<Rightarrow> 'w db" where
  "index_delete L table key old =
     index_call (\<lambda>m. delete_fields L table key old (GetIndexedFields table m) m)"

type_synonym 'w appender = "wal_entry \<Rightarrow> 'w \<Rightarrow> goerror option \<times> 'w"

definition mk_entry :: "byte \<Rightarrow> string \<Rightarrow> string \<Rightarrow> goval \<Rightarrow> wal_entry" where
  "mk_entry ty table key v =
     \<lparr>e_op = ty, e_table = table, e_key = key, e_value = v, e_txid = [], e_time = 0\<rparr>"

text \<open>Appending to the log when there is one; \<open>undo\<close> is the code's rollback of the data when that
  fails. The error is assigned to a shadowed variable and goes nowhere else.\<close>

definition log_append :: "'w appender \<Rightarrow> wal_entry \<Rightarrow> (tables \<Rightarrow> tables) \<Rightarrow> 'w db \<Rightarrow> 'w db" where
  "log_append app e undo db =
     (case db_wal db of
        None \<Rightarrow> db
      | Some w \<Rightarrow>
          (case app e w of
             (None, w') \<Rightarrow> db\<lparr>db_wal := Some w'\<rparr>
           | (Some _, w') \<Rightarrow>
               db\<lparr>db_wal := Some w', db_data := undo (db_data db), db_wal_failed := True\<rparr>))"

definition old_value :: "tables \<Rightarrow> string \<Rightarrow> string \<Rightarrow> goval" where
  "old_value d table key =
     (case gm_get d table of None \<Rightarrow> VNil | Some t \<Rightarrow> (case gm_get t key of None \<Rightarrow> VNil | Some v \<Rightarrow> v))"

section \<open>One operation\<close>

text \<open>Each returns the error for the client, whether the operation counts as a success, and the state.\<close>

definition do_create :: "'w appender \<Rightarrow> wop \<Rightarrow> 'w db \<Rightarrow> goerror option \<times> bool \<times> 'w db" where
  "do_create app op db =
     (let tbl = op_table op;
          exists = gm_get (db_data db) tbl \<noteq> None;
          db1 = (if exists then db else db\<lparr>db_data := gm_put tbl [] (db_data db)\<rparr>)
      in (if exists then Some (ErrTableExists tbl) else None, True,
          log_append app (mk_entry OpCreate tbl [] VNil) (gm_del tbl) db1))"

definition do_write :: "golib \<Rightarrow> 'w appender \<Rightarrow> wop \<Rightarrow> 'w db \<Rightarrow> goerror option \<times> bool \<times> 'w db" where
  "do_write L app op db =
     (let tbl = op_table op; key = op_key op; v = op_value op in
      if gm_get (db_data db) tbl = None then (Some (ErrTableMissing tbl), False, db)
      else (let old = old_value (db_data db) tbl key;
                db1 = db\<lparr>db_data := set_key tbl key v (db_data db)\<rparr>;
                db2 = on_metrics (IncrementWrites 1) (index_update L tbl key old v db1)
            in (None, True, log_append app (mk_entry OpWrite tbl key v) (set_key tbl key old) db2)))"

definition do_delete :: "golib \<Rightarrow> 'w appender \<Rightarrow> wop \<Rightarrow> 'w db \<Rightarrow> goerror option \<times> bool \<times> 'w db" where
  "do_delete L app op db =
     (let tbl = op_table op; key = op_key op in
      if gm_get (db_data db) tbl = None then (Some (ErrTableMissing tbl), False, db)
      else (let old = old_value (db_data db) tbl key;
                db1 = db\<lparr>db_data := del_key tbl key (db_data db)\<rparr>;
                db2 = on_metrics IncrementDeletes (index_delete L tbl key old db1)
            in (None, True, log_append app (mk_entry OpDelete tbl key VNil) (set_key tbl key old) db2)))"

text \<open>One round of the batch loop; a failing append writes the old value back under the key of the
  operation, which a batch leaves empty, not under the key of the record.\<close>

definition batch_record :: "golib \<Rightarrow> 'w appender \<Rightarrow> wop \<Rightarrow> string \<times> goval \<Rightarrow> 'w db \<Rightarrow> 'w db" where
  "batch_record L app op kv db =
     (let tbl = op_table op; key = fst kv; v = snd kv;
          old = old_value (db_data db) tbl key;
          db1 = db\<lparr>db_data := set_key tbl key v (db_data db)\<rparr>;
          db2 = index_update L tbl key old v db1
      in log_append app (mk_entry OpWrite tbl key v) (set_key tbl (op_key op) old) db2)"

definition do_batch :: "golib \<Rightarrow> 'w appender \<Rightarrow> wop \<Rightarrow> 'w db \<Rightarrow> goerror option \<times> bool \<times> 'w db" where
  "do_batch L app op db =
     (if gm_get (db_data db) (op_table op) = None then (Some (ErrTableMissing (op_table op)), False, db)
      else (None, True, on_metrics (IncrementWrites (of_nat (length (op_records op))))
             (fold (batch_record L app op) (op_records op) db)))"

definition do_op :: "golib \<Rightarrow> 'w appender \<Rightarrow> wop \<Rightarrow> 'w db \<Rightarrow> goerror option \<times> bool \<times> 'w db" where
  "do_op L app op db =
     (if op_type op = opCreate then do_create app op db
      else if op_type op = opWrite then do_write L app op db
      else if op_type op = opDelete then do_delete L app op db
      else if op_type op = opBatch then do_batch L app op db
      else (Some ErrUnknownOp, False, db))"

section \<open>A batch\<close>

definition process_op :: "golib \<Rightarrow> 'w appender \<Rightarrow> wop \<Rightarrow> bool \<times> 'w db \<Rightarrow> bool \<times> 'w db" where
  "process_op L app op s =
     (case s of (some_success, db) \<Rightarrow>
       (case do_op L app op db of (err, success, db1) \<Rightarrow>
         (let db2 = (if err \<noteq> None then on_metrics IncrementFailedOps db1 else db1)
          in (some_success \<or> success,
              db2\<lparr>db_pendingOps := db_pendingOps db2 - 1, db_replies := db_replies db2 @ [(op_ch op, err)]\<rparr>))))"

definition processBatch :: "golib \<Rightarrow> 'w appender \<Rightarrow> 'w db \<Rightarrow> 'w db" where
  "processBatch L app db =
     (if db_pending db = [] then db
      else (case fold (process_op L app) (db_pending db) (False, db) of (some_success, db1) \<Rightarrow>
             (let db2 = (if some_success
                         then db1\<lparr>db_version := db_version db1 + 1, db_dirtyFlag := True\<rparr> else db1)
              in db2\<lparr>db_pending := []\<rparr>)))"

section \<open>The loop of the worker\<close>

definition workerBatch :: nat where
  "workerBatch = 50"

text \<open>The first \<^verbatim>\<open>select\<close>: an operation from the channel; the end when the channel is closed and empty; and
  when it is open and empty, the way to the second \<^verbatim>\<open>select\<close>.\<close>

definition worker_recv :: "golib \<Rightarrow> 'w appender \<Rightarrow> 'w db \<Rightarrow> 'w db" where
  "worker_recv L app db =
     (if db_workerIdle db then db
      else (case db_writeBuffer db of
        op # ops \<Rightarrow>
          (let db1 = db\<lparr>db_writeBuffer := ops, db_pending := db_pending db @ [op]\<rparr>
           in if workerBatch \<le> length (db_pending db1) then processBatch L app db1 else db1)
      | [] \<Rightarrow> if db_bufferClosed db then (processBatch L app db)\<lparr>db_workerDone := True\<rparr>
              else db\<lparr>db_workerIdle := True\<rparr>))"

text \<open>The cases of the second \<^verbatim>\<open>select\<close>, whichever is ready: the channel, the ticker, the context.\<close>

definition worker_idle_recv :: "golib \<Rightarrow> 'w appender \<Rightarrow> 'w db \<Rightarrow> 'w db" where
  "worker_idle_recv L app db =
     (if \<not> db_workerIdle db then db
      else (case db_writeBuffer db of
        op # ops \<Rightarrow> db\<lparr>db_writeBuffer := ops, db_pending := db_pending db @ [op], db_workerIdle := False\<rparr>
      | [] \<Rightarrow> if db_bufferClosed db then (processBatch L app db)\<lparr>db_workerDone := True\<rparr> else db))"

definition worker_tick :: "golib \<Rightarrow> 'w appender \<Rightarrow> 'w db \<Rightarrow> 'w db" where
  "worker_tick L app db =
     (if db_workerIdle db then (processBatch L app db)\<lparr>db_workerIdle := False\<rparr> else db)"

definition worker_ctx_done :: "golib \<Rightarrow> 'w appender \<Rightarrow> 'w db \<Rightarrow> 'w db" where
  "worker_ctx_done L app db =
     (if db_workerIdle db \<and> db_ctxDone db then (processBatch L app db)\<lparr>db_workerDone := True\<rparr> else db)"

section \<open>The specification\<close>

text \<open>
  What the operations mean on tables as maps: the error for the client and the new tables.
\<close>

type_synonym world = "string \<Rightarrow> (string \<Rightarrow> goval option) option"

definition put_row :: "string \<Rightarrow> string \<Rightarrow> goval \<Rightarrow> world \<Rightarrow> world" where
  "put_row t k v W = (case W t of None \<Rightarrow> W | Some r \<Rightarrow> W(t \<mapsto> r(k \<mapsto> v)))"

definition del_row :: "string \<Rightarrow> string \<Rightarrow> world \<Rightarrow> world" where
  "del_row t k W = (case W t of None \<Rightarrow> W | Some r \<Rightarrow> W(t \<mapsto> r(k := None)))"

definition spec_op :: "wop \<Rightarrow> world \<Rightarrow> goerror option \<times> world" where
  "spec_op op W =
     (let t = op_table op in
      if op_type op = opCreate then
        (if W t = None then (None, W(t \<mapsto> Map.empty)) else (Some (ErrTableExists t), W))
      else if op_type op \<in> {opWrite, opDelete, opBatch} then
        (if W t = None then (Some (ErrTableMissing t), W)
         else (None, if op_type op = opWrite then put_row t (op_key op) (op_value op) W
                     else if op_type op = opDelete then del_row t (op_key op) W
                     else fold (\<lambda>(k, v). put_row t k v) (op_records op) W))
      else (Some ErrUnknownOp, W))"

fun spec_ops :: "wop list \<Rightarrow> world \<Rightarrow> (nat \<times> goerror option) list \<times> world" where
  "spec_ops [] W = ([], W)"
| "spec_ops (op # ops) W =
     (case spec_op op W of (err, W1) \<Rightarrow>
       (case spec_ops ops W1 of (answers, W2) \<Rightarrow> ((op_ch op, err) # answers, W2)))"

text \<open>The log entries of an operation that runs on the tables \<open>W\<close>.\<close>

definition op_entries :: "wop \<Rightarrow> world \<Rightarrow> wal_entry list" where
  "op_entries op W =
     (let t = op_table op in
      if op_type op = opCreate then [mk_entry OpCreate t [] VNil]
      else if W t = None then []
      else if op_type op = opWrite then [mk_entry OpWrite t (op_key op) (op_value op)]
      else if op_type op = opDelete then [mk_entry OpDelete t (op_key op) VNil]
      else if op_type op = opBatch then map (\<lambda>(k, v). mk_entry OpWrite t k v) (op_records op)
      else [])"

fun ops_entries :: "wop list \<Rightarrow> world \<Rightarrow> wal_entry list" where
  "ops_entries [] W = []"
| "ops_entries (op # ops) W = op_entries op W @ ops_entries ops (snd (spec_op op W))"

lemma view_set_key [simp]: "view (set_key t k v d) = put_row t k v (view d)"
  by (auto simp: view_def set_key_def put_row_def fun_eq_iff split: option.splits)

lemma view_del_key [simp]: "view (del_key t k d) = del_row t k (view d)"
  by (auto simp: view_def del_key_def del_row_def fun_eq_iff split: option.splits)

lemma view_ensure_table [simp]:
  "view (ensure_table t d) = (if view d t = None then (view d)(t \<mapsto> Map.empty) else view d)"
  by (auto simp: view_def ensure_table_def fun_eq_iff)

lemma view_None [simp]: "view d t = None \<longleftrightarrow> gm_get d t = None"
  by (simp add: view_def)

lemma put_row_dom [simp]: "put_row t k v W t' = None \<longleftrightarrow> W t' = None"
  by (auto simp: put_row_def split: option.splits)

lemma del_row_dom [simp]: "del_row t k W t' = None \<longleftrightarrow> W t' = None"
  by (auto simp: del_row_def split: option.splits)

end
