(* ===== verification/WorkerInv.thy ===== *)
theory WorkerInv
  imports Worker
begin

text \<open>
  What the worker guarantees: it touches only the data, the indexes, the log and the counters, it
  answers every operation as the specification says, and as long as no append fails the data are
  those of the specification and the log holds the entries of the operations.
\<close>

section \<open>Frame\<close>

definition touches :: "'w db \<Rightarrow> 'w db \<Rightarrow> bool" where
  "touches db db' \<longleftrightarrow> (\<exists>d w i m f p.
     db' = db\<lparr>db_data := d, db_wal := w, db_indexMgr := i, db_metrics := m, db_wal_failed := f, db_panicked := p\<rparr>)"

lemma touches_refl [simp]: "touches db db"
  unfolding touches_def
  by (rule exI [of _ "db_data db"], rule exI [of _ "db_wal db"], rule exI [of _ "db_indexMgr db"],
      rule exI [of _ "db_metrics db"], rule exI [of _ "db_wal_failed db"], rule exI [of _ "db_panicked db"]) simp

lemma touches_trans: "touches a b \<Longrightarrow> touches b c \<Longrightarrow> touches a c"
  unfolding touches_def by (elim exE, hypsubst) (simp, blast)

lemma touchesD:
  assumes "touches db db'"
  shows "db_storage db' = db_storage db" "db_txManager db' = db_txManager db" "db_config db' = db_config db"
    "db_closed db' = db_closed db" "db_ctxDone db' = db_ctxDone db" "db_writeBuffer db' = db_writeBuffer db"
    "db_bufferClosed db' = db_bufferClosed db" "db_pending db' = db_pending db" "db_workerDone db' = db_workerDone db"
    "db_dirtyFlag db' = db_dirtyFlag db" "db_lastLoaded db' = db_lastLoaded db" "db_lastSave db' = db_lastSave db"
    "db_pendingOps db' = db_pendingOps db" "db_version db' = db_version db" "db_replies db' = db_replies db"
    "db_accepted db' = db_accepted db" "db_waiting db' = db_waiting db" "db_workerIdle db' = db_workerIdle db"
    "db_index_raced db' = db_index_raced db"
  using assms unfolding touches_def by auto

lemma touches_on_metrics [simp]: "touches db (on_metrics f db)"
  unfolding touches_def on_metrics_def
  by (rule exI [of _ "db_data db"], rule exI [of _ "db_wal db"], rule exI [of _ "db_indexMgr db"],
      rule exI [of _ "map_option f (db_metrics db)"], rule exI [of _ "db_wal_failed db"], rule exI [of _ "db_panicked db"]) simp

lemma touches_data [simp]: "touches db (db\<lparr>db_data := d\<rparr>)"
  unfolding touches_def
  by (rule exI [of _ d], rule exI [of _ "db_wal db"], rule exI [of _ "db_indexMgr db"],
      rule exI [of _ "db_metrics db"], rule exI [of _ "db_wal_failed db"], rule exI [of _ "db_panicked db"]) simp

lemma touches_index_call [simp]: "touches db (index_call f db)"
proof -
  have "\<exists>i p. index_call f db = db\<lparr>db_indexMgr := i, db_panicked := p\<rparr>"
  proof (cases "db_indexMgr db")
    case None
    then have "index_call f db = db\<lparr>db_indexMgr := db_indexMgr db, db_panicked := db_panicked db\<rparr>"
      by (simp add: index_call_def)
    then show ?thesis by blast
  next
    case (Some m)
    show ?thesis
    proof (cases "f m")
      case (Inl e)
      with Some have "index_call f db = db\<lparr>db_indexMgr := db_indexMgr db, db_panicked := True\<rparr>"
        by (simp add: index_call_def)
      then show ?thesis by blast
    next
      case (Inr m')
      with Some have "index_call f db = db\<lparr>db_indexMgr := Some m', db_panicked := db_panicked db\<rparr>"
        by (simp add: index_call_def)
      then show ?thesis by blast
    qed
  qed
  then obtain i p where "index_call f db = db\<lparr>db_indexMgr := i, db_panicked := p\<rparr>"
    by blast
  then show ?thesis
    unfolding touches_def
    by - (rule exI [of _ "db_data db"], rule exI [of _ "db_wal db"], rule exI [of _ i],
        rule exI [of _ "db_metrics db"], rule exI [of _ "db_wal_failed db"], rule exI [of _ p], simp)
qed

lemma index_call_keeps [simp]:
  "db_data (index_call f db) = db_data db" "db_wal (index_call f db) = db_wal db"
  "db_wal_failed (index_call f db) = db_wal_failed db"
  by (auto simp: index_call_def split: option.splits sum.splits)

lemma on_metrics_keeps [simp]:
  "db_data (on_metrics f db) = db_data db" "db_wal (on_metrics f db) = db_wal db"
  "db_wal_failed (on_metrics f db) = db_wal_failed db" "db_indexMgr (on_metrics f db) = db_indexMgr db"
  by (simp_all add: on_metrics_def)

lemma touches_log_append [simp]: "touches db (log_append app e undo db)"
proof (cases "db_wal db")
  case None
  then show ?thesis
    by (simp add: log_append_def)
next
  case (Some w)
  obtain r w' where r: "app e w = (r, w')"
    by fastforce
  show ?thesis
    unfolding touches_def
    using Some r
    by (rule_tac exI [of _ "if r = None then db_data db else undo (db_data db)"], rule_tac exI [of _ "Some w'"],
        rule_tac exI [of _ "db_indexMgr db"], rule_tac exI [of _ "db_metrics db"],
        rule_tac exI [of _ "if r = None then db_wal_failed db else True"], rule_tac exI [of _ "db_panicked db"])
      (cases r; simp add: log_append_def)
qed

lemmas touches_chain = touches_trans [OF touches_data]

lemma touches_batch_record: "touches db (batch_record L app op kv db)"
  unfolding batch_record_def Let_def index_update_def
  by (rule touches_trans [OF _ touches_log_append], rule touches_trans [OF _ touches_index_call]) simp

lemma touches_batch_fold: "touches db (fold (batch_record L app op) kvs db)"
  by (induction kvs arbitrary: db) (auto intro: touches_trans [OF touches_batch_record])

lemma touches_do_op: "touches db (snd (snd (do_op L app op db)))"
proof -
  have "touches db (snd (snd (do_create app op db)))"
    unfolding do_create_def Let_def snd_conv
    by (rule touches_trans [OF _ touches_log_append]) simp
  moreover have "touches db (snd (snd (do_write L app op db)))"
    unfolding do_write_def Let_def index_update_def
    by (simp, intro impI, rule touches_trans [OF _ touches_log_append],
        rule touches_trans [OF _ touches_on_metrics], rule touches_trans [OF _ touches_index_call]) simp
  moreover have "touches db (snd (snd (do_delete L app op db)))"
    unfolding do_delete_def Let_def index_delete_def
    by (simp, intro impI, rule touches_trans [OF _ touches_log_append],
        rule touches_trans [OF _ touches_on_metrics], rule touches_trans [OF _ touches_index_call]) simp
  moreover have "touches db (snd (snd (do_batch L app op db)))"
    unfolding do_batch_def
    by (simp, intro impI, rule touches_trans [OF touches_batch_fold touches_on_metrics])
  ultimately show ?thesis
    by (simp add: do_op_def)
qed

section \<open>Answers\<close>

lemma do_op_answer:
  "fst (do_op L app op db) = fst (spec_op op (view (db_data db)))"
  "fst (snd (do_op L app op db)) =
     (op_type op = opCreate \<or> (op_type op \<in> {opWrite, opDelete, opBatch} \<and> view (db_data db) (op_table op) \<noteq> None))"
  by (auto simp: do_op_def spec_op_def do_create_def do_write_def do_delete_def do_batch_def Let_def db_op_defs)

lemma do_op_no_success:
  "\<not> fst (snd (do_op L app op db)) \<Longrightarrow> snd (snd (do_op L app op db)) = db"
  by (auto simp: do_op_def do_create_def do_write_def do_delete_def do_batch_def Let_def split: if_splits)

section \<open>The data and the log\<close>

lemma log_append_failed: "db_wal_failed db \<Longrightarrow> db_wal_failed (log_append app e undo db)"
  by (auto simp: log_append_def split: option.splits prod.splits)

lemma log_append_data: "\<not> db_wal_failed (log_append app e undo db) \<Longrightarrow> db_data (log_append app e undo db) = db_data db"
  by (auto simp: log_append_def split: option.splits prod.splits)

lemma batch_record_failed: "db_wal_failed db \<Longrightarrow> db_wal_failed (batch_record L app op kv db)"
  by (simp add: batch_record_def Let_def log_append_failed index_update_def)

lemma batch_fold_failed: "db_wal_failed db \<Longrightarrow> db_wal_failed (fold (batch_record L app op) kvs db)"
  by (induction kvs arbitrary: db) (simp_all add: batch_record_failed)

lemma do_op_failed: "db_wal_failed db \<Longrightarrow> db_wal_failed (snd (snd (do_op L app op db)))"
  by (auto simp: do_op_def do_create_def do_write_def do_delete_def do_batch_def Let_def index_update_def
      index_delete_def log_append_failed batch_fold_failed)

lemma batch_fold_data:
  "\<not> db_wal_failed (fold (batch_record L app op) kvs db) \<Longrightarrow>
   view (db_data (fold (batch_record L app op) kvs db)) = fold (\<lambda>(k, v). put_row (op_table op) k v) kvs (view (db_data db))"
proof (induction kvs arbitrary: db)
  case Nil
  then show ?case by simp
next
  case (Cons kv kvs)
  let ?db1 = "batch_record L app op kv db"
  have "\<not> db_wal_failed ?db1"
    using Cons.prems batch_fold_failed [of ?db1 L app op kvs] by auto
  then have "view (db_data ?db1) = put_row (op_table op) (fst kv) (snd kv) (view (db_data db))"
    by (simp add: batch_record_def Let_def index_update_def log_append_data)
  with Cons show ?case
    by (simp add: split_beta)
qed

lemma do_op_data:
  assumes "\<not> db_wal_failed (snd (snd (do_op L app op db)))"
  shows "view (db_data (snd (snd (do_op L app op db)))) = snd (spec_op op (view (db_data db)))"
proof -
  let ?t = "op_table op"
  consider (create) "op_type op = opCreate" | (wr) "op_type op = opWrite" | (delete) "op_type op = opDelete"
    | (batch) "op_type op = opBatch" | (other) "op_type op \<notin> {opCreate, opWrite, opDelete, opBatch}"
    by blast
  then show ?thesis
  proof cases
    case create
    have "view (gm_put ?t [] (db_data db)) = (view (db_data db))(?t \<mapsto> Map.empty)"
      by (auto simp: view_def)
    with create assms show ?thesis
      by (auto simp: do_op_def do_create_def spec_op_def Let_def log_append_data)
  next
    case wr
    then show ?thesis
      using assms
      by (auto simp: log_append_data do_op_def do_write_def spec_op_def Let_def index_update_def db_op_defs)
  next
    case delete
    then show ?thesis
      using assms
      by (auto simp: log_append_data do_op_def do_delete_def spec_op_def Let_def index_delete_def db_op_defs)
  next
    case batch
    then show ?thesis
      using assms batch_fold_data [of L app op "op_records op" db]
      by (auto simp: do_op_def do_batch_def spec_op_def Let_def db_op_defs)
  next
    case other
    then show ?thesis
      by (auto simp: do_op_def spec_op_def Let_def)
  qed
qed

lemma log_append_wal [simp]: "db_wal (log_append app e undo db) = None \<longleftrightarrow> db_wal db = None"
  by (auto simp: log_append_def split: option.splits prod.splits)

lemma batch_fold_wal [simp]: "db_wal (fold (batch_record L app op) kvs db) = None \<longleftrightarrow> db_wal db = None"
  by (induction kvs arbitrary: db) (simp_all add: batch_record_def Let_def index_update_def)

lemma do_op_wal [simp]: "db_wal (snd (snd (do_op L app op db))) = None \<longleftrightarrow> db_wal db = None"
  by (auto simp: do_op_def do_create_def do_write_def do_delete_def do_batch_def Let_def index_update_def index_delete_def)

section \<open>A batch\<close>

definition run_ops :: "golib \<Rightarrow> 'w appender \<Rightarrow> wop list \<Rightarrow> bool \<times> 'w db \<Rightarrow> bool \<times> 'w db" where
  "run_ops L app ops s = fold (process_op L app) ops s"

lemma run_ops_simps [simp]:
  "run_ops L app [] s = s"
  "run_ops L app (op # ops) s = run_ops L app ops (process_op L app op s)"
  by (simp_all add: run_ops_def)

lemma process_op_eq:
  "process_op L app op (s, db) =
     (let r = do_op L app op db; db1 = snd (snd r);
          db2 = (if fst r \<noteq> None then on_metrics IncrementFailedOps db1 else db1)
      in (s \<or> fst (snd r), db2\<lparr>db_pendingOps := db_pendingOps db2 - 1, db_replies := db_replies db2 @ [(op_ch op, fst r)]\<rparr>))"
  by (simp add: process_op_def split_beta Let_def)

lemma process_op_fields:
  fixes db :: "'w db" and L :: golib and app :: "'w appender" and op :: wop and s :: bool
  defines "db' \<equiv> snd (process_op L app op (s, db))"
  shows "db_storage db' = db_storage db" "db_txManager db' = db_txManager db" "db_config db' = db_config db"
    "db_closed db' = db_closed db" "db_ctxDone db' = db_ctxDone db" "db_writeBuffer db' = db_writeBuffer db"
    "db_bufferClosed db' = db_bufferClosed db" "db_pending db' = db_pending db" "db_workerDone db' = db_workerDone db"
    "db_dirtyFlag db' = db_dirtyFlag db" "db_version db' = db_version db" "db_accepted db' = db_accepted db"
    "db_waiting db' = db_waiting db" "db_workerIdle db' = db_workerIdle db" "db_index_raced db' = db_index_raced db"
    "db_pendingOps db' = db_pendingOps db - 1"
    "db_replies db' = db_replies db @ [(op_ch op, fst (spec_op op (view (db_data db))))]"
    "db_data db' = db_data (snd (snd (do_op L app op db)))"
    "db_wal db' = db_wal (snd (snd (do_op L app op db)))"
    "db_wal_failed db' = db_wal_failed (snd (snd (do_op L app op db)))"
    "db_indexMgr db' = db_indexMgr (snd (snd (do_op L app op db)))"
  using touchesD [OF touches_do_op [of db L app op]]
  by (simp_all add: db'_def process_op_eq Let_def do_op_answer(1) on_metrics_def)

lemma process_op_success: "fst (process_op L app op (s, db)) = (s \<or> fst (snd (do_op L app op db)))"
  by (simp add: process_op_eq Let_def)

lemma process_op_pair: "process_op L app op (s, db) = (fst (process_op L app op (s, db)), snd (process_op L app op (s, db)))"
  by simp

lemma run_ops_fields:
  "db_storage (snd (run_ops L app ops (s, db))) = db_storage db \<and>
   db_txManager (snd (run_ops L app ops (s, db))) = db_txManager db \<and>
   db_config (snd (run_ops L app ops (s, db))) = db_config db \<and>
   db_closed (snd (run_ops L app ops (s, db))) = db_closed db \<and>
   db_ctxDone (snd (run_ops L app ops (s, db))) = db_ctxDone db \<and>
   db_writeBuffer (snd (run_ops L app ops (s, db))) = db_writeBuffer db \<and>
   db_bufferClosed (snd (run_ops L app ops (s, db))) = db_bufferClosed db \<and>
   db_workerDone (snd (run_ops L app ops (s, db))) = db_workerDone db \<and>
   db_dirtyFlag (snd (run_ops L app ops (s, db))) = db_dirtyFlag db \<and>
   db_version (snd (run_ops L app ops (s, db))) = db_version db \<and>
   db_accepted (snd (run_ops L app ops (s, db))) = db_accepted db \<and>
   db_waiting (snd (run_ops L app ops (s, db))) = db_waiting db \<and>
   db_workerIdle (snd (run_ops L app ops (s, db))) = db_workerIdle db \<and>
   db_index_raced (snd (run_ops L app ops (s, db))) = db_index_raced db \<and>
   db_pendingOps (snd (run_ops L app ops (s, db))) = db_pendingOps db - of_nat (length ops)"
proof (induction ops arbitrary: s db)
  case Nil
  then show ?case by simp
next
  case (Cons op ops)
  show ?case
    using Cons.IH [of "fst (process_op L app op (s, db))" "snd (process_op L app op (s, db))"]
    by (simp add: process_op_fields)
qed

lemma run_ops_replies:
  "map fst (db_replies (snd (run_ops L app ops (s, db)))) = map fst (db_replies db) @ map op_ch ops"
proof (induction ops arbitrary: s db)
  case Nil
  then show ?case by simp
next
  case (Cons op ops)
  show ?case
    using Cons.IH [of "fst (process_op L app op (s, db))" "snd (process_op L app op (s, db))"]
    by (simp add: process_op_fields)
qed

lemma run_ops_failed: "db_wal_failed db \<Longrightarrow> db_wal_failed (snd (run_ops L app ops (s, db)))"
proof (induction ops arbitrary: s db)
  case Nil
  then show ?case by simp
next
  case (Cons op ops)
  then show ?case
    using Cons.IH [of "snd (process_op L app op (s, db))" "fst (process_op L app op (s, db))"]
    by (simp add: process_op_fields do_op_failed)
qed

lemma run_ops_spec:
  "\<not> db_wal_failed (snd (run_ops L app ops (s, db))) \<Longrightarrow>
   view (db_data (snd (run_ops L app ops (s, db)))) = snd (spec_ops ops (view (db_data db))) \<and>
   db_replies (snd (run_ops L app ops (s, db))) = db_replies db @ fst (spec_ops ops (view (db_data db)))"
proof (induction ops arbitrary: s db)
  case Nil
  then show ?case by simp
next
  case (Cons op ops)
  let ?s = "fst (process_op L app op (s, db))" and ?db = "snd (process_op L app op (s, db))"
  have "\<not> db_wal_failed ?db"
    using Cons.prems run_ops_failed [of ?db L app ops ?s] by auto
  then have "view (db_data ?db) = snd (spec_op op (view (db_data db)))"
    by (simp add: process_op_fields do_op_data)
  moreover have "\<not> db_wal_failed (snd (run_ops L app ops (?s, ?db)))"
    using Cons.prems by simp
  ultimately show ?case
    using Cons.IH [of ?s ?db] by (simp add: process_op_fields split_beta)
qed

lemma run_ops_idle:
  "\<not> fst (run_ops L app ops (s, db)) \<Longrightarrow>
   \<not> s \<and> db_data (snd (run_ops L app ops (s, db))) = db_data db \<and> db_wal (snd (run_ops L app ops (s, db))) = db_wal db \<and>
   db_indexMgr (snd (run_ops L app ops (s, db))) = db_indexMgr db"
proof (induction ops arbitrary: s db)
  case Nil
  then show ?case by simp
next
  case (Cons op ops)
  let ?s = "fst (process_op L app op (s, db))" and ?db = "snd (process_op L app op (s, db))"
  have IH: "\<not> ?s \<and> db_data (snd (run_ops L app ops (?s, ?db))) = db_data ?db \<and>
      db_wal (snd (run_ops L app ops (?s, ?db))) = db_wal ?db \<and>
      db_indexMgr (snd (run_ops L app ops (?s, ?db))) = db_indexMgr ?db"
    using Cons.prems by (intro Cons.IH) simp
  then have "\<not> s" and "\<not> fst (snd (do_op L app op db))"
    by (simp_all add: process_op_success)
  with IH do_op_no_success [of L app op db] show ?case
    by (simp add: process_op_fields)
qed

lemma processBatch_eq:
  "processBatch L app db =
     (if db_pending db = [] then db
      else (let r = run_ops L app (db_pending db) (False, db);
                db2 = (if fst r then (snd r)\<lparr>db_version := db_version db + 1, db_dirtyFlag := True\<rparr> else snd r)
            in db2\<lparr>db_pending := []\<rparr>))"
  using run_ops_fields [of L app "db_pending db" False db]
  by (simp add: processBatch_def run_ops_def split_beta Let_def)

lemma processBatch_fields:
  "db_storage (processBatch L app db) = db_storage db" "db_txManager (processBatch L app db) = db_txManager db"
  "db_config (processBatch L app db) = db_config db" "db_closed (processBatch L app db) = db_closed db"
  "db_ctxDone (processBatch L app db) = db_ctxDone db" "db_writeBuffer (processBatch L app db) = db_writeBuffer db"
  "db_bufferClosed (processBatch L app db) = db_bufferClosed db"
  "db_workerDone (processBatch L app db) = db_workerDone db"
  "db_pending (processBatch L app db) = []" "db_accepted (processBatch L app db) = db_accepted db"
  "db_waiting (processBatch L app db) = db_waiting db" "db_workerIdle (processBatch L app db) = db_workerIdle db"
  "db_index_raced (processBatch L app db) = db_index_raced db"
  "db_pendingOps (processBatch L app db) = db_pendingOps db - of_nat (length (db_pending db))"
  using run_ops_fields [of L app "db_pending db" False db]
  by (simp_all add: processBatch_eq Let_def)

lemma processBatch_replies:
  "map fst (db_replies (processBatch L app db)) = map fst (db_replies db) @ map op_ch (db_pending db)"
  using run_ops_replies [of L app "db_pending db" False db] by (simp add: processBatch_eq Let_def)

lemma processBatch_failed: "db_wal_failed db \<Longrightarrow> db_wal_failed (processBatch L app db)"
  using run_ops_failed [of db L app "db_pending db" False] by (simp add: processBatch_eq Let_def)

lemma processBatch_spec:
  assumes "\<not> db_wal_failed (processBatch L app db)"
  shows "view (db_data (processBatch L app db)) = snd (spec_ops (db_pending db) (view (db_data db)))"
    "db_replies (processBatch L app db) = db_replies db @ fst (spec_ops (db_pending db) (view (db_data db)))"
proof -
  have "view (db_data (processBatch L app db)) = snd (spec_ops (db_pending db) (view (db_data db))) \<and>
    db_replies (processBatch L app db) = db_replies db @ fst (spec_ops (db_pending db) (view (db_data db)))"
  proof (cases "db_pending db = []")
    case True
    then show ?thesis by (simp add: processBatch_def)
  next
    case False
    then show ?thesis
      using assms run_ops_spec [of L app "db_pending db" False db] by (simp add: processBatch_eq Let_def split: if_splits)
  qed
  then show "view (db_data (processBatch L app db)) = snd (spec_ops (db_pending db) (view (db_data db)))"
    "db_replies (processBatch L app db) = db_replies db @ fst (spec_ops (db_pending db) (view (db_data db)))"
    by simp_all
qed

text \<open>The version tells whether the data may have changed.\<close>

lemma processBatch_version:
  "(db_version (processBatch L app db) = db_version db + 1 \<and> db_dirtyFlag (processBatch L app db)) \<or>
   (db_version (processBatch L app db) = db_version db \<and> db_data (processBatch L app db) = db_data db \<and>
    db_dirtyFlag (processBatch L app db) = db_dirtyFlag db)"
  using run_ops_fields [of L app "db_pending db" False db] run_ops_idle [of L app "db_pending db" False db]
  by (auto simp: processBatch_eq Let_def)

text \<open>The log under the contract of \<^verbatim>\<open>wal.Append\<close>.\<close>

locale db_log = append_log app log eview
  for app :: "'w appender" and log :: "'w \<Rightarrow> 'v list" and eview :: "wal_entry \<Rightarrow> 'v"
begin

definition db_log :: "'w db \<Rightarrow> 'v list" where
  "db_log db = (case db_wal db of None \<Rightarrow> [] | Some w \<Rightarrow> log w)"

lemma db_log_keeps [simp]:
  "db_log (index_call f db) = db_log db" "db_log (on_metrics g db) = db_log db"
  "db_log (db\<lparr>db_data := d\<rparr>) = db_log db"
  by (simp_all add: db_log_def)

lemma log_append_log:
  "\<not> db_wal_failed (log_append app e undo db) \<Longrightarrow> db_wal db \<noteq> None \<Longrightarrow>
   db_log (log_append app e undo db) = db_log db @ [eview e]"
  by (auto simp: log_append_def db_log_def dest: append_ok split: option.splits prod.splits)

lemma batch_fold_log:
  "\<not> db_wal_failed (fold (batch_record L app op) kvs db) \<Longrightarrow> db_wal db \<noteq> None \<Longrightarrow>
   db_log (fold (batch_record L app op) kvs db) =
     db_log db @ map (\<lambda>(k, v). eview (mk_entry OpWrite (op_table op) k v)) kvs"
proof (induction kvs arbitrary: db)
  case Nil
  then show ?case by simp
next
  case (Cons kv kvs)
  let ?db1 = "batch_record L app op kv db"
  have ok: "\<not> db_wal_failed ?db1"
    using Cons.prems(1) batch_fold_failed [of ?db1 L app op kvs] by auto
  have "db_log ?db1 = db_log db @ [eview (mk_entry OpWrite (op_table op) (fst kv) (snd kv))]"
    using ok Cons.prems(2) by (simp add: batch_record_def Let_def index_update_def log_append_log)
  moreover have "db_wal ?db1 \<noteq> None"
    using Cons.prems(2) by (simp add: batch_record_def Let_def index_update_def)
  ultimately show ?case
    using Cons ok by (simp add: split_beta)
qed

lemma do_op_log:
  assumes "\<not> db_wal_failed (snd (snd (do_op L app op db)))" "db_wal db \<noteq> None"
  shows "db_log (snd (snd (do_op L app op db))) = db_log db @ map eview (op_entries op (view (db_data db)))"
proof -
  consider (create) "op_type op = opCreate" | (wr) "op_type op = opWrite" | (delete) "op_type op = opDelete"
    | (batch) "op_type op = opBatch" | (other) "op_type op \<notin> {opCreate, opWrite, opDelete, opBatch}"
    by blast
  then show ?thesis
  proof cases
    case create
    then show ?thesis
      using assms log_append_log [of "mk_entry OpCreate (op_table op) [] VNil" "gm_del (op_table op)"]
      by (auto simp: do_op_def do_create_def op_entries_def Let_def)
  next
    case wr
    then show ?thesis
      using assms
      by (auto simp: do_op_def do_write_def op_entries_def Let_def index_update_def db_op_defs log_append_log)
  next
    case delete
    then show ?thesis
      using assms
      by (auto simp: do_op_def do_delete_def op_entries_def Let_def index_delete_def db_op_defs log_append_log)
  next
    case batch
    then show ?thesis
      using assms batch_fold_log [of L op "op_records op" db]
      by (auto simp: do_op_def do_batch_def op_entries_def Let_def db_op_defs split_beta)
  next
    case other
    then show ?thesis
      using assms by (auto simp: do_op_def op_entries_def Let_def)
  qed
qed

lemma run_ops_log:
  "\<not> db_wal_failed (snd (run_ops L app ops (s, db))) \<Longrightarrow> db_wal db \<noteq> None \<Longrightarrow>
   db_log (snd (run_ops L app ops (s, db))) = db_log db @ map eview (ops_entries ops (view (db_data db)))"
proof (induction ops arbitrary: s db)
  case Nil
  then show ?case by simp
next
  case (Cons op ops)
  let ?s = "fst (process_op L app op (s, db))" and ?db = "snd (process_op L app op (s, db))"
  have ok: "\<not> db_wal_failed ?db"
    using Cons.prems run_ops_failed [of ?db L app ops ?s] by auto
  then have "view (db_data ?db) = snd (spec_op op (view (db_data db)))"
    by (simp add: process_op_fields do_op_data)
  moreover have "db_log ?db = db_log db @ map eview (op_entries op (view (db_data db)))"
    using ok Cons.prems(2) do_op_log [of L op db] by (simp add: process_op_fields db_log_def)
  moreover have "db_wal ?db \<noteq> None"
    using Cons.prems(2) by (simp add: process_op_fields)
  moreover have "\<not> db_wal_failed (snd (run_ops L app ops (?s, ?db)))"
    using Cons.prems by simp
  ultimately show ?case
    using Cons.IH [of ?s ?db] by simp
qed

lemma processBatch_log:
  assumes "\<not> db_wal_failed (processBatch L app db)" "db_wal db \<noteq> None"
  shows "db_log (processBatch L app db) = db_log db @ map eview (ops_entries (db_pending db) (view (db_data db)))"
  using assms run_ops_log [of L "db_pending db" False db]
  by (auto simp: processBatch_eq Let_def db_log_def split: if_splits)

end

lemma run_ops_wal [simp]: "db_wal (snd (run_ops L app ops (s, db))) = None \<longleftrightarrow> db_wal db = None"
proof (induction ops arbitrary: s db)
  case (Cons op ops)
  then show ?case
    using Cons.IH [of "fst (process_op L app op (s, db))" "snd (process_op L app op (s, db))"]
    by (simp add: process_op_fields)
qed simp

lemma processBatch_wal [simp]: "db_wal (processBatch L app db) = None \<longleftrightarrow> db_wal db = None"
  by (simp add: processBatch_eq Let_def)

text \<open>A property of the log that every append keeps is kept by the worker.\<close>

definition wal_all :: "('w \<Rightarrow> bool) \<Rightarrow> 'w db \<Rightarrow> bool" where
  "wal_all P db \<longleftrightarrow> (case db_wal db of None \<Rightarrow> True | Some w \<Rightarrow> P w)"

lemma wal_all_cong: "db_wal db = db_wal db' \<Longrightarrow> wal_all P db = wal_all P db'"
  by (simp add: wal_all_def)

lemma log_append_all: "(\<And>e w. P w \<Longrightarrow> P (snd (app e w))) \<Longrightarrow> wal_all P db \<Longrightarrow> wal_all P (log_append app e undo db)"
proof -
  assume P: "\<And>e w. P w \<Longrightarrow> P (snd (app e w))" and db: "wal_all P db"
  show "wal_all P (log_append app e undo db)"
  proof (cases "db_wal db")
    case None
    then show ?thesis by (simp add: wal_all_def log_append_def)
  next
    case (Some w)
    moreover obtain r w' where "app e w = (r, w')"
      by fastforce
    moreover from this P [of w e] db Some have "P w'"
      by (simp add: wal_all_def)
    ultimately show ?thesis
      by (cases r) (simp_all add: wal_all_def log_append_def)
  qed
qed

lemma wal_all_keeps [simp]:
  "wal_all P (index_call f db) = wal_all P db" "wal_all P (on_metrics g db) = wal_all P db"
  "wal_all P (db\<lparr>db_data := d\<rparr>) = wal_all P db"
  by (simp_all add: wal_all_def)

lemma batch_record_all:
  "(\<And>e w. P w \<Longrightarrow> P (snd (app e w))) \<Longrightarrow> wal_all P db \<Longrightarrow> wal_all P (batch_record L app op kv db)"
  unfolding batch_record_def Let_def index_update_def by (rule log_append_all) simp_all

lemma batch_fold_all:
  "(\<And>e w. P w \<Longrightarrow> P (snd (app e w))) \<Longrightarrow> wal_all P db \<Longrightarrow> wal_all P (fold (batch_record L app op) kvs db)"
proof (induction kvs arbitrary: db)
  case (Cons kv kvs)
  have "wal_all P (batch_record L app op kv db)"
    using Cons.prems by (rule batch_record_all)
  with Cons.IH Cons.prems(1) show ?case
    by simp
qed simp

lemma do_op_all:
  "(\<And>e w. P w \<Longrightarrow> P (snd (app e w))) \<Longrightarrow> wal_all P db \<Longrightarrow> wal_all P (snd (snd (do_op L app op db)))"
  by (auto simp: do_op_def do_create_def do_write_def do_delete_def do_batch_def Let_def index_update_def
      index_delete_def intro!: log_append_all batch_fold_all)

lemma run_ops_all:
  "(\<And>e w. P w \<Longrightarrow> P (snd (app e w))) \<Longrightarrow> wal_all P db \<Longrightarrow> wal_all P (snd (run_ops L app ops (s, db)))"
proof (induction ops arbitrary: s db)
  case Nil
  then show ?case by simp
next
  case (Cons op ops)
  have "wal_all P (snd (process_op L app op (s, db)))"
    using do_op_all [OF Cons.prems] by (simp add: wal_all_def process_op_fields)
  with Cons.IH [OF Cons.prems(1), of "snd (process_op L app op (s, db))" "fst (process_op L app op (s, db))"]
  show ?case by simp
qed

lemma processBatch_all:
  "(\<And>e w. P w \<Longrightarrow> P (snd (app e w))) \<Longrightarrow> wal_all P db \<Longrightarrow> wal_all P (processBatch L app db)"
  using run_ops_all [of P app db L "db_pending db" False] by (auto simp: processBatch_eq Let_def wal_all_def)

end
