(* ===== verification/Recovery.thy ===== *)
theory Recovery
  imports Worker
begin

text \<open>
  Replaying the log: \<^verbatim>\<open>recoverFromWAL\<close> and \<^verbatim>\<open>applyWALEntry\<close> of \<^verbatim>\<open>database.go\<close> on tables as maps, the
  entries of operations replay to what the operations did, and replaying a log over a snapshot that
  was taken while it was written gives the final state.
\<close>

definition ensure_row :: "string \<Rightarrow> world \<Rightarrow> world" where
  "ensure_row t W = (if W t = None then W(t \<mapsto> Map.empty) else W)"

definition replay1 :: "wal_entry \<Rightarrow> world \<Rightarrow> world" where
  "replay1 e W =
     (if e_op e = OpCreate then ensure_row (e_table e) W
      else if e_op e = OpWrite then put_row (e_table e) (e_key e) (e_value e) (ensure_row (e_table e) W)
      else if e_op e = OpDelete then del_row (e_table e) (e_key e) W
      else W)"

definition replay :: "wal_entry list \<Rightarrow> world \<Rightarrow> world" where
  "replay es W = fold replay1 es W"

lemma replay_simps [simp]:
  "replay [] W = W" "replay (e # es) W = replay es (replay1 e W)" "replay (es @ fs) W = replay fs (replay es W)"
  by (simp_all add: replay_def)

lemma view_applyWALEntry: "view (applyWALEntry e d) = replay1 e (view d)"
  by (simp add: applyWALEntry_def replay1_def ensure_row_def)

lemma view_recoverFromWAL: "view (recoverFromWAL es d) = replay es (view d)"
  by (induction es arbitrary: d) (simp_all add: recoverFromWAL_def view_applyWALEntry)

section \<open>The entries of operations\<close>

lemma entry_fields [simp]:
  "e_op (mk_entry ty t k v) = ty" "e_table (mk_entry ty t k v) = t" "e_key (mk_entry ty t k v) = k"
  "e_value (mk_entry ty t k v) = v"
  by (simp_all add: mk_entry_def)

lemma ensure_row_same [simp]: "W t \<noteq> None \<Longrightarrow> ensure_row t W = W"
  by (auto simp: ensure_row_def)

lemma replay_write_entry:
  "W t \<noteq> None \<Longrightarrow> replay1 (mk_entry OpWrite t k v) W = put_row t k v W"
  by (simp add: replay1_def op_defs)

lemma replay_records:
  "W t \<noteq> None \<Longrightarrow> replay (map (\<lambda>(k, v). mk_entry OpWrite t k v) kvs) W = fold (\<lambda>(k, v). put_row t k v) kvs W"
proof (induction kvs arbitrary: W)
  case Nil
  then show ?case by simp
next
  case (Cons kv kvs)
  obtain k v where kv: "kv = (k, v)"
    by (cases kv)
  have dom: "put_row t k v W t \<noteq> None"
    using Cons.prems by (simp only: put_row_dom not_False_eq_True)
  have "replay (map (\<lambda>(k, v). mk_entry OpWrite t k v) (kv # kvs)) W =
      replay (map (\<lambda>(k, v). mk_entry OpWrite t k v) kvs) (put_row t k v W)"
    using replay_write_entry [of W t k v] Cons.prems kv by (simp only: list.map prod.case replay_simps simp_thms)
  then show ?case
    using Cons.IH [of "put_row t k v W", OF dom] kv by (simp only: fold_simps prod.case)
qed

lemma replay_op_entries: "replay (op_entries op W) W = snd (spec_op op W)"
proof -
  have "replay1 (mk_entry OpCreate t [] VNil) W = ensure_row t W" for t
    by (simp add: replay1_def op_defs)
  moreover have "replay1 (mk_entry OpDelete t k VNil) W = del_row t k W" for t k
    by (simp add: replay1_def op_defs)
  ultimately show ?thesis
    by (auto simp: op_entries_def spec_op_def Let_def replay_write_entry replay_records ensure_row_def db_op_defs)
qed

lemma replay_ops_entries: "replay (ops_entries ops W) W = snd (spec_ops ops W)"
  by (induction ops arbitrary: W) (simp_all add: replay_op_entries split_beta)

section \<open>The last writer of a key\<close>

fun created :: "wal_entry list \<Rightarrow> string \<Rightarrow> bool" where
  "created [] t \<longleftrightarrow> False"
| "created (e # es) t \<longleftrightarrow> (e_table e = t \<and> e_op e \<in> {OpCreate, OpWrite}) \<or> created es t"

text \<open>What the entries do to a key in the end: nothing, or delete it, or set it.\<close>

fun last_write :: "wal_entry list \<Rightarrow> string \<Rightarrow> string \<Rightarrow> goval option option" where
  "last_write [] t k = None"
| "last_write (e # es) t k =
     (case last_write es t k of
        Some x \<Rightarrow> Some x
      | None \<Rightarrow>
          if e_table e = t \<and> e_key e = k \<and> e_op e = OpWrite then Some (Some (e_value e))
          else if e_table e = t \<and> e_key e = k \<and> e_op e = OpDelete then Some None
          else None)"

definition row_key :: "world \<Rightarrow> string \<Rightarrow> string \<Rightarrow> goval option" where
  "row_key W t k = (case W t of None \<Rightarrow> None | Some r \<Rightarrow> r k)"

lemma created_append [simp]: "created (es @ fs) t \<longleftrightarrow> created es t \<or> created fs t"
  by (induction es) auto

lemma last_write_append [simp]:
  "last_write (es @ fs) t k = (case last_write fs t k of Some x \<Rightarrow> Some x | None \<Rightarrow> last_write es t k)"
  by (induction es) (auto split: option.split)

lemma replay1_dom: "replay1 e W t = None \<longleftrightarrow> W t = None \<and> \<not> created [e] t"
  by (auto simp: replay1_def ensure_row_def op_defs put_row_def del_row_def split: option.splits)

lemma replay_dom: "replay es W t = None \<longleftrightarrow> W t = None \<and> \<not> created es t"
  by (induction es arbitrary: W) (auto simp: replay1_dom)

lemma replay1_key: "row_key (replay1 e W) t k = (case last_write [e] t k of Some x \<Rightarrow> x | None \<Rightarrow> row_key W t k)"
  by (auto simp: replay1_def ensure_row_def op_defs put_row_def del_row_def row_key_def split: option.splits)

lemma replay_key: "row_key (replay es W) t k = (case last_write es t k of Some x \<Rightarrow> x | None \<Rightarrow> row_key W t k)"
proof (induction es arbitrary: W)
  case Nil
  then show ?case by simp
next
  case (Cons e es)
  then show ?case
    using replay1_key [of e W t k] by (auto split: option.splits)
qed

lemma world_eqI:
  assumes "\<And>t. W t = None \<longleftrightarrow> V t = None" "\<And>t k. row_key W t k = row_key V t k"
  shows "W = V"
proof
  fix t
  show "W t = V t"
  proof (cases "W t")
    case None
    then show ?thesis using assms(1) [of t] by simp
  next
    case (Some r)
    then obtain r' where r': "V t = Some r'"
      using assms(1) [of t] by (cases "V t") auto
    have "r = r'"
      using assms(2) [of t] Some r' by (auto simp: row_key_def)
    with Some r' show ?thesis by simp
  qed
qed

text \<open>A log may be replayed any number of times, and over any state it has led to on the way.\<close>

lemma replay_over_prefix: "replay (es @ fs) (replay es W) = replay (es @ fs) W"
  by (rule world_eqI) (auto simp: replay_dom replay_key split: option.split)

text \<open>Entries as they come back from the log, and a snapshot as it comes back from the file.\<close>

definition map_value :: "(goval \<Rightarrow> goval) \<Rightarrow> wal_entry \<Rightarrow> wal_entry" where
  "map_value f e = e\<lparr>e_value := f (e_value e)\<rparr>"

lemma created_map_value [simp]: "created (map (map_value f) es) t = created es t"
  by (induction es) (simp_all add: map_value_def)

lemma last_write_map_value [simp]:
  "last_write (map (map_value f) es) t k = map_option (map_option f) (last_write es t k)"
  by (induction es) (auto simp: map_value_def split: option.split)

lemma norm_view_dom [simp]: "norm_view g W t = None \<longleftrightarrow> W t = None"
  by (simp add: norm_view_def)

lemma row_key_norm_view [simp]: "row_key (norm_view g W) t k = map_option g (row_key W t k)"
  by (simp add: row_key_def norm_view_def split: option.split)

text \<open>\<open>same_up_to f g W V\<close>: the same tables and keys, each value of \<open>V\<close> being the \<open>f\<close>- or the \<open>g\<close>-image
  of the value of \<open>W\<close>.\<close>

definition same_up_to :: "(goval \<Rightarrow> goval) \<Rightarrow> (goval \<Rightarrow> goval) \<Rightarrow> world \<Rightarrow> world \<Rightarrow> bool" where
  "same_up_to f g W V \<longleftrightarrow>
     (\<forall>t. V t = None \<longleftrightarrow> W t = None) \<and>
     (\<forall>t k. row_key V t k = map_option f (row_key W t k) \<or> row_key V t k = map_option g (row_key W t k))"

text \<open>Replaying a log over a snapshot of the session that wrote its end; \<open>old\<close> are the entries of earlier
  sessions, which the first state of the session already contains.\<close>

lemma replay_over_snapshot:
  assumes "map (map_value f) old = old"
  shows "same_up_to f g (replay (es @ fs) (replay old W))
     (replay (old @ map (map_value f) (es @ fs)) (norm_view g (replay es (replay old W))))"
proof -
  have "last_write old t k = map_option (map_option f) (last_write old t k)" for t k
    using last_write_map_value [of f old t k] assms by simp
  then have "x = map_option f x" if "last_write old t k = Some x" for t k x
    using that by (metis option.inject option.simps(9))
  then show ?thesis
    unfolding same_up_to_def
    by (auto simp: replay_dom replay_key simp del: map_append replay_simps(3) split: option.split)
qed

lemma replay_ops_over_snapshot:
  assumes "view d = norm_view g (snd (spec_ops ops1 (replay old W)))" "map (map_value f) old = old"
  shows "same_up_to f g (snd (spec_ops (ops1 @ ops2) (replay old W)))
    (view (recoverFromWAL (old @ map (map_value f) (ops_entries (ops1 @ ops2) (replay old W))) d))"
proof -
  let ?V = "replay old W"
  let ?W1 = "snd (spec_ops ops1 ?V)"
  have split: "ops_entries (ops1 @ ops2) V = ops_entries ops1 V @ ops_entries ops2 (snd (spec_ops ops1 V))" for V
    by (induction ops1 arbitrary: V) (simp_all add: split_beta)
  have "snd (spec_ops (ops1 @ ops2) ?V) = replay (ops_entries (ops1 @ ops2) ?V) ?V"
    by (simp only: replay_ops_entries)
  then show ?thesis
    using replay_over_snapshot [OF assms(2), of g "ops_entries ops1 ?V" "ops_entries ops2 ?W1" W] assms(1)
    by (simp add: split view_recoverFromWAL replay_ops_entries del: map_append replay_simps(3))
qed

text \<open>C7: recovery is exact for logged operations: take the tables at any moment while the worker was
  executing a sequence of operations, in the form in which the state file keeps them, and replay the
  entries of the whole sequence over them as the log returns them; the result has exactly the tables
  and keys of the final state, each value in the normal form of the log or of the file.\<close>
theorem recovery_over_any_snapshot:
  assumes "view d = norm_view g (snd (spec_ops ops1 W))"
    and "entries = map (map_value f) (ops_entries (ops1 @ ops2) W)"
  shows "same_up_to f g (snd (spec_ops (ops1 @ ops2) W)) (view (recoverFromWAL entries d))"
  using replay_ops_over_snapshot [of d g ops1 "[]" W f ops2] assms by simp

theorem recovery_over_any_snapshot_witness:
  "same_up_to (\<lambda>v. v) (\<lambda>v. v)
     (snd (spec_ops [mk_op 1 opCreate ''t'' [] VNil [], mk_op 2 opWrite ''t'' ''k'' (VInt 1) []] Map.empty))
     (view (recoverFromWAL [mk_entry OpCreate ''t'' [] VNil, mk_entry OpWrite ''t'' ''k'' (VInt 1)] [(''t'', [])]))"
proof -
  have "view [(''t'', [])] = norm_view (\<lambda>v. v) (snd (spec_ops [mk_op 1 opCreate ''t'' [] VNil []] Map.empty))"
    by (auto simp: view_def spec_op_def mk_op_def)
  moreover have "[mk_entry OpCreate ''t'' [] VNil, mk_entry OpWrite ''t'' ''k'' (VInt 1)] =
      map (map_value (\<lambda>v. v)) (ops_entries
        ([mk_op 1 opCreate ''t'' [] VNil []] @ [mk_op 2 opWrite ''t'' ''k'' (VInt 1) []]) Map.empty)"
    by (simp add: op_entries_def spec_op_def mk_op_def db_op_defs map_value_def mk_entry_def)
  ultimately show ?thesis
    using recovery_over_any_snapshot [of "[(''t'', [])]" "\<lambda>v. v" "[mk_op 1 opCreate ''t'' [] VNil []]" Map.empty _
        "\<lambda>v. v" "[mk_op 2 opWrite ''t'' ''k'' (VInt 1) []]"] by simp
qed

lemma recovered_last_write:
  "last_write entries table key = Some x \<Longrightarrow> row_key (view (recoverFromWAL entries d)) table key = x"
  by (simp add: view_recoverFromWAL replay_key)

end
