(* ===== verification/DbIndex.thy ===== *)
theory DbIndex
  imports WorkerInv Recovery
begin

text \<open>
  The indexes of the database: the worker keeps every index describing its table, and
  \<^verbatim>\<open>QueryByIndex\<close> answers accordingly; a committed transaction does not.
\<close>

section \<open>All fields of a table\<close>

definition mgr_wf :: "manager \<Rightarrow> bool" where
  "mgr_wf m \<longleftrightarrow> (\<forall>t. gm_wf (table_indexes m t))"

lemma remove_is_change: "remove_key L f key old i = change_key L f key old VNil i"
  by (auto simp: change_key_def remove_key_def extractFieldValue_def split: sum.split)

lemma DeleteFromIndex_is_Update: "DeleteFromIndex L t f key old m = UpdateIndex L t f key old VNil m"
  by (simp add: DeleteFromIndex_def UpdateIndex_def remove_is_change split: option.split)

lemma delete_fields_is_update: "delete_fields L t key old fs m = update_fields L t key old VNil fs m"
  by (induction fs arbitrary: m) (simp_all add: DeleteFromIndex_is_Update split: sum.split)

lemma mgr_wf_set_index [simp]: "mgr_wf m \<Longrightarrow> mgr_wf (set_index t f i m)"
  by (auto simp: mgr_wf_def set_index_def)

lemma mgr_wf_New [simp]: "mgr_wf Index.NewManager"
  by (simp add: mgr_wf_def Index.NewManager_def)

lemma indexed_fields: "f \<in> set (GetIndexedFields t m) \<longleftrightarrow> find_index m t f \<noteq> None"
  by (auto simp: GetIndexedFields_def find_index_def map_of_eq_None_iff)

lemma distinct_indexed_fields: "mgr_wf m \<Longrightarrow> distinct (GetIndexedFields t m)"
  by (simp add: mgr_wf_def GetIndexedFields_def gm_wf_def)

lemma UpdateIndex_find:
  assumes "UpdateIndex L t f key old new m = Inr m'"
  shows "(t', f') \<noteq> (t, f) \<Longrightarrow> find_index m' t' f' = find_index m t' f'"
    and "find_index m t f = Some i \<Longrightarrow> \<exists>i'. find_index m' t f = Some i' \<and> change_key L f key old new i = Inr i'"
    and "find_index m t f = None \<Longrightarrow> find_index m' t f = None"
    and "mgr_wf m \<Longrightarrow> mgr_wf m'"
  using assms by (auto simp: UpdateIndex_def split: option.splits sum.splits)

lemma update_fields_find:
  "distinct fs \<Longrightarrow> update_fields L t key old new fs m = Inr m' \<Longrightarrow>
   (\<forall>t'. t' \<noteq> t \<or> f' \<notin> set fs \<longrightarrow> find_index m' t' f' = find_index m t' f') \<and>
   (f' \<in> set fs \<longrightarrow> (case find_index m t f' of None \<Rightarrow> find_index m' t f' = None
      | Some i \<Rightarrow> \<exists>i'. find_index m' t f' = Some i' \<and> change_key L f' key old new i = Inr i')) \<and>
   (mgr_wf m \<longrightarrow> mgr_wf m')"
proof (induction fs arbitrary: m)
  case Nil
  then show ?case by simp
next
  case (Cons f fs)
  then obtain m1 where m1: "UpdateIndex L t f key old new m = Inr m1" "update_fields L t key old new fs m1 = Inr m'"
    by (auto split: sum.splits)
  note IH = Cons.IH [OF _ m1(2)] and U = UpdateIndex_find [OF m1(1)]
  show ?case
  proof (cases "f' = f")
    case True
    with Cons.prems(1) IH U show ?thesis
      by (cases "find_index m t f") (auto split: option.splits)
  next
    case False
    then have "find_index m1 t' f' = find_index m t' f'" for t'
      by (intro U(1)) simp
    with False Cons.prems(1) IH U(4) show ?thesis
      by (auto split: option.splits)
  qed
qed

lemma update_fields_ok:
  assumes ok: "indexes_ok L m D" and wf: "mgr_wf m"
    and upd: "update_fields L t key (case D t key of None \<Rightarrow> VNil | Some v \<Rightarrow> v) new (GetIndexedFields t m) m = Inr m'"
  shows "indexes_ok L m' (D(t := (D t)(key \<mapsto> new))) \<and> mgr_wf m'"
proof -
  note U = update_fields_find [OF distinct_indexed_fields [OF wf] upd]
  have "tracks L f i ((D(t := (D t)(key \<mapsto> new))) t')" if i: "find_index m' t' f = Some i" for t' f i
  proof (cases "t' = t \<and> f \<in> set (GetIndexedFields t m)")
    case True
    then obtain i0 where i0: "find_index m t f = Some i0"
      using indexed_fields by blast
    with True i U [of f] have "change_key L f key (case D t key of None \<Rightarrow> VNil | Some v \<Rightarrow> v) new i0 = Inr i"
      by auto
    moreover have "tracks L f i0 (D t)"
      using ok i0 by (simp add: indexes_ok_def)
    ultimately show ?thesis
      using field_index.change_tracks [of L f i0 "D t"] True by simp
  next
    case False
    with i U [of f] have old: "find_index m t' f = Some i"
      by auto
    with False indexed_fields have "t' \<noteq> t"
      by blast
    with old ok show ?thesis
      by (simp add: indexes_ok_def)
  qed
  with U wf show ?thesis
    by (auto simp: indexes_ok_def)
qed

section \<open>Queries after any history\<close>

text \<open>The histories of an index manager and of the records \<open>D\<close> of the tables: indexes are created from the
  records of their table, each change of a record is reported to all fields of its table, as the worker
  does it, and indexes are dropped.\<close>

inductive index_history :: "golib \<Rightarrow> (string \<Rightarrow> string \<Rightarrow> goval option) \<Rightarrow> manager \<Rightarrow> bool" for L where
  ih_new: "index_history L D Index.NewManager"
| ih_create: "index_history L D m \<Longrightarrow> distinct (map fst kvs) \<Longrightarrow> D t = map_of kvs \<Longrightarrow>
    CreateIndex L t f kvs m = Inr m' \<Longrightarrow> index_history L D m'"
| ih_write: "index_history L D m \<Longrightarrow>
    update_fields L t k (case D t k of None \<Rightarrow> VNil | Some u \<Rightarrow> u) v (GetIndexedFields t m) m = Inr m' \<Longrightarrow>
    index_history L (D(t := (D t)(k \<mapsto> v))) m'"
| ih_delete: "index_history L D m \<Longrightarrow>
    delete_fields L t k (case D t k of None \<Rightarrow> VNil | Some u \<Rightarrow> u) (GetIndexedFields t m) m = Inr m' \<Longrightarrow>
    index_history L (D(t := (D t)(k := None))) m'"
| ih_drop: "index_history L D m \<Longrightarrow> index_history L D (DropIndex t f m)"

lemma find_DropIndex: "find_index (DropIndex t f m) t' f' = (if t' = t \<and> f' = f then None else find_index m t' f')"
  by (auto simp: DropIndex_def find_index_def split: option.split)

lemma mgr_wf_DropIndex: "mgr_wf m \<Longrightarrow> mgr_wf (DropIndex t f m)"
  unfolding mgr_wf_def
proof
  fix t'
  assume wf: "\<forall>t. gm_wf (table_indexes m t)"
  show "gm_wf (table_indexes (DropIndex t f m) t')"
    using wf [rule_format, of t] wf [rule_format, of t'] by (auto simp: DropIndex_def split: option.splits)
qed

lemma index_history_ok: "index_history L D m \<Longrightarrow> indexes_ok L m D \<and> mgr_wf m"
proof (induction rule: index_history.induct)
  case (ih_new D)
  then show ?case by simp
next
  case (ih_create D m kvs t f m')
  then have "mgr_wf m'"
    by (auto simp: CreateIndex_def split: if_splits sum.splits)
  with ih_create CreateIndex_ok(1) show ?case
    by blast
next
  case (ih_write D m t k v m')
  then show ?case
    by (intro update_fields_ok) auto
next
  case (ih_delete D m t k m')
  then have "indexes_ok L m' (D(t := (D t)(k \<mapsto> VNil))) \<and> mgr_wf m'"
    by (intro update_fields_ok) (auto simp: delete_fields_is_update)
  then show ?case
    using tracks_upd_VNil by (simp add: indexes_ok_def del: fun_upd_apply) (metis fun_upd_apply)
next
  case (ih_drop D m t f)
  then show ?case
    by (simp add: indexes_ok_def find_DropIndex mgr_wf_DropIndex)
qed

text \<open>C18: after any sequence of index creations from the records of a table, reported writes and deletes,
  and dropped indexes, a query on an index that exists returns exactly the keys of the records whose
  field has the same formatted value at that moment, each once.\<close>
theorem Query_correct:
  assumes "index_history L D m" "find_index m table field \<noteq> None" "formatIndexValue L value = Inr s"
  shows "\<exists>ks. Query L table field value m = Inr ks \<and> distinct ks \<and>
     set ks = {k. \<exists>v fv. D table k = Some v \<and> extractFieldValue L v field = Some fv \<and> formatIndexValue L fv = Inr s}"
proof -
  obtain i where i: "find_index m table field = Some i"
    using assms(2) by blast
  then have t: "tracks L field i (D table)"
    using index_history_ok [OF assms(1)] by (simp add: indexes_ok_def)
  have "index_key L field v = Inr (Some s) \<longleftrightarrow>
      (\<exists>fv. extractFieldValue L v field = Some fv \<and> formatIndexValue L fv = Inr s)" for v
    by (auto simp: index_key_def split: option.splits sum.splits)
  then have "set (bucket i s) =
      {k. \<exists>v fv. D table k = Some v \<and> extractFieldValue L v field = Some fv \<and> formatIndexValue L fv = Inr s}"
    using tracksD(4) [OF t] by auto
  then show ?thesis
    using Query_tracked [OF i assms(3)] tracksD(3) [OF t] by simp
qed

text \<open>An index on two people, of whom the first then takes the name of the second.\<close>

theorem Query_correct_witness:
  "\<exists>m ks. update_fields sample_lib ''t'' ''k1'' (sample_person ''Bob'') (sample_person ''ann'') [''name'']
       \<lparr>m_indexes = [(''t'', [(''name'', [(''bob'', [''k1'']), (''ann'', [''k2''])])])]\<rparr> = Inr m \<and>
     Query sample_lib ''t'' ''name'' (VString ''ann'') m = Inr ks \<and> set ks = {''k1'', ''k2''}"
proof -
  let ?kvs = "[(''k1'', sample_person ''Bob''), (''k2'', sample_person ''ann'')]"
  let ?m = "\<lparr>m_indexes = [(''t'', [(''name'', [(''bob'', [''k1'']), (''ann'', [''k2''])])])]\<rparr>"
  let ?m' = "\<lparr>m_indexes = [(''t'', [(''name'', [(''ann'', [''k2'', ''k1''])])])]\<rparr>"
  let ?D = "(\<lambda>_ _. None)(''t'' := map_of ?kvs)"
  let ?D' = "?D(''t'' := (?D ''t'')(''k1'' \<mapsto> sample_person ''ann''))"
  have h: "index_history sample_lib ?D ?m"
    using ih_create [OF ih_new _ _ sample_created, of ?D] by simp
  have upd: "update_fields sample_lib ''t'' ''k1'' (sample_person ''Bob'') (sample_person ''ann'') [''name''] ?m = Inr ?m'"
    by (simp add: UpdateIndex_def find_index_def change_key_def remove_key_def add_key_def extractFieldValue_def
        sample_person_def format_string sample_lower set_index_def)
  have "index_history sample_lib ?D' ?m'"
    by (rule ih_write [OF h]) (use upd in \<open>simp add: GetIndexedFields_def\<close>)
  moreover have "find_index ?m' ''t'' ''name'' \<noteq> None"
    by (simp add: find_index_def)
  moreover have "formatIndexValue sample_lib (VString ''ann'') = Inr ''ann''"
    by (simp add: format_string sample_lower)
  ultimately obtain ks where ks: "Query sample_lib ''t'' ''name'' (VString ''ann'') ?m' = Inr ks"
    "set ks = {k. \<exists>v fv. ?D' ''t'' k = Some v \<and> extractFieldValue sample_lib v ''name'' = Some fv \<and>
        formatIndexValue sample_lib fv = Inr ''ann''}"
    using Query_correct by blast
  have row: "?D' ''t'' k = (if k = ''k1'' \<or> k = ''k2'' then Some (sample_person ''ann'') else None)" for k
    by simp
  have "set ks = {''k1'', ''k2''}"
    unfolding ks(2) row by (auto simp: extractFieldValue_def sample_person_def format_string sample_lower)
  with upd ks(1) show ?thesis
    by blast
qed

section \<open>The database\<close>

definition rows :: "'w db \<Rightarrow> string \<Rightarrow> string \<Rightarrow> goval option" where
  "rows db t k = row_key (view (db_data db)) t k"

definition db_index_ok :: "golib \<Rightarrow> 'w db \<Rightarrow> bool" where
  "db_index_ok L db \<longleftrightarrow> (case db_indexMgr db of None \<Rightarrow> True
     | Some m \<Rightarrow> mgr_wf m \<and> indexes_ok L m (rows db))"

lemma old_value_rows: "old_value (db_data db) t k = (case rows db t k of None \<Rightarrow> VNil | Some v \<Rightarrow> v)"
  by (simp add: old_value_def rows_def row_key_def view_def split: option.split)

lemma rows_set_key: "gm_get (db_data db) t \<noteq> None \<Longrightarrow>
    rows (db\<lparr>db_data := set_key t k v (db_data db)\<rparr>) = (rows db)(t := (rows db t)(k \<mapsto> v))"
  by (auto simp: rows_def row_key_def view_def set_key_def fun_eq_iff)

lemma rows_del_key: "gm_get (db_data db) t \<noteq> None \<Longrightarrow>
    rows (db\<lparr>db_data := del_key t k (db_data db)\<rparr>) = (rows db)(t := (rows db t)(k := None))"
  by (auto simp: rows_def row_key_def view_def del_key_def fun_eq_iff)

lemma rows_cong: "db_data db = db_data db' \<Longrightarrow> rows db = rows db'"
  by (simp add: rows_def fun_eq_iff)

lemma index_ok_cong: "db_data db = db_data db' \<Longrightarrow> db_indexMgr db = db_indexMgr db' \<Longrightarrow> db_index_ok L db = db_index_ok L db'"
  by (simp add: db_index_ok_def rows_cong [of db db'] split: option.split)

lemma log_append_index:
  "\<not> db_wal_failed (log_append app e undo db) \<Longrightarrow> db_index_ok L (log_append app e undo db) = db_index_ok L db"
  "db_panicked (log_append app e undo db) = db_panicked db"
  by (auto simp: log_append_def split: option.splits prod.splits intro!: index_ok_cong)

lemma on_metrics_index [simp]:
  "db_index_ok L (on_metrics f db) = db_index_ok L db" "db_panicked (on_metrics f db) = db_panicked db"
  by (simp_all add: on_metrics_def index_ok_cong [of "db\<lparr>db_metrics := _\<rparr>" db])

lemma index_call_panicked: "db_panicked db \<Longrightarrow> db_panicked (index_call f db)"
  by (auto simp: index_call_def split: option.splits sum.splits)

lemma index_update_ok:
  assumes ok: "db_index_ok L db" and t: "gm_get (db_data db) t \<noteq> None"
    and np: "\<not> db_panicked (index_update L t k (old_value (db_data db) t k) v (db\<lparr>db_data := set_key t k v (db_data db)\<rparr>))"
  shows "db_index_ok L (index_update L t k (old_value (db_data db) t k) v (db\<lparr>db_data := set_key t k v (db_data db)\<rparr>))"
proof (cases "db_indexMgr db")
  case None
  then show ?thesis
    by (simp add: index_update_def index_call_def db_index_ok_def)
next
  case (Some m)
  then obtain m' where m': "update_fields L t k (old_value (db_data db) t k) v (GetIndexedFields t m) m = Inr m'"
    using np by (auto simp: index_update_def index_call_def split: sum.splits)
  have "indexes_ok L m (rows db)" "mgr_wf m"
    using ok Some by (simp_all add: db_index_ok_def)
  from update_fields_ok [OF this m' [unfolded old_value_rows]] show ?thesis
    using Some m' rows_set_key [OF t, of k v]
    by (simp add: index_update_def index_call_def db_index_ok_def rows_def [abs_def])
qed

lemma index_delete_ok:
  assumes ok: "db_index_ok L db" and t: "gm_get (db_data db) t \<noteq> None"
    and np: "\<not> db_panicked (index_delete L t k (old_value (db_data db) t k) (db\<lparr>db_data := del_key t k (db_data db)\<rparr>))"
  shows "db_index_ok L (index_delete L t k (old_value (db_data db) t k) (db\<lparr>db_data := del_key t k (db_data db)\<rparr>))"
proof (cases "db_indexMgr db")
  case None
  then show ?thesis
    by (simp add: index_delete_def index_call_def db_index_ok_def)
next
  case (Some m)
  then obtain m' where m': "update_fields L t k (old_value (db_data db) t k) VNil (GetIndexedFields t m) m = Inr m'"
    using np by (auto simp: index_delete_def index_call_def delete_fields_is_update split: sum.splits)
  have "indexes_ok L m (rows db)" "mgr_wf m"
    using ok Some by (simp_all add: db_index_ok_def)
  from update_fields_ok [OF this m' [unfolded old_value_rows]]
  have "indexes_ok L m' ((rows db)(t := (rows db t)(k \<mapsto> VNil)))" "mgr_wf m'"
    by simp_all
  then have "indexes_ok L m' ((rows db)(t := (rows db t)(k := None)))"
    using tracks_upd_VNil by (simp add: indexes_ok_def del: fun_upd_apply) (metis fun_upd_apply)
  then show ?thesis
    using Some m' \<open>mgr_wf m'\<close> rows_del_key [OF t, of k]
    by (simp add: index_delete_def index_call_def db_index_ok_def delete_fields_is_update rows_def [abs_def])
qed

lemma batch_record_panicked: "db_panicked db \<Longrightarrow> db_panicked (batch_record L app op kv db)"
  by (simp add: batch_record_def Let_def index_update_def log_append_index index_call_panicked)

lemma batch_fold_panicked: "db_panicked db \<Longrightarrow> db_panicked (fold (batch_record L app op) kvs db)"
  by (induction kvs arbitrary: db) (simp_all add: batch_record_panicked)

lemma do_op_panicked: "db_panicked db \<Longrightarrow> db_panicked (snd (snd (do_op L app op db)))"
  by (auto simp: do_op_def do_create_def do_write_def do_delete_def do_batch_def Let_def index_update_def
      index_delete_def log_append_index index_call_panicked batch_fold_panicked)

lemma batch_record_ok:
  assumes "db_index_ok L db" "gm_get (db_data db) (op_table op) \<noteq> None"
    and "\<not> db_wal_failed (batch_record L app op kv db)" "\<not> db_panicked (batch_record L app op kv db)"
  shows "db_index_ok L (batch_record L app op kv db) \<and> gm_get (db_data (batch_record L app op kv db)) (op_table op) \<noteq> None"
proof -
  let ?db2 = "index_update L (op_table op) (fst kv) (old_value (db_data db) (op_table op) (fst kv)) (snd kv)
      (db\<lparr>db_data := set_key (op_table op) (fst kv) (snd kv) (db_data db)\<rparr>)"
  have "\<not> db_panicked ?db2"
    using assms(4) by (simp add: batch_record_def Let_def log_append_index)
  then have "db_index_ok L ?db2"
    using index_update_ok assms(1,2) by blast
  moreover have "db_data (batch_record L app op kv db) = set_key (op_table op) (fst kv) (snd kv) (db_data db)"
    using assms(3) by (simp add: batch_record_def Let_def log_append_data index_update_def)
  moreover have "gm_get (set_key (op_table op) (fst kv) (snd kv) (db_data db)) (op_table op) \<noteq> None"
    using assms(2) by (auto simp: set_key_def)
  ultimately show ?thesis
    using assms(3) by (simp add: batch_record_def Let_def log_append_index)
qed

lemma batch_fold_ok:
  "db_index_ok L db \<Longrightarrow> gm_get (db_data db) (op_table op) \<noteq> None \<Longrightarrow>
   \<not> db_wal_failed (fold (batch_record L app op) kvs db) \<Longrightarrow> \<not> db_panicked (fold (batch_record L app op) kvs db) \<Longrightarrow>
   db_index_ok L (fold (batch_record L app op) kvs db)"
proof (induction kvs arbitrary: db)
  case Nil
  then show ?case by simp
next
  case (Cons kv kvs)
  let ?db1 = "batch_record L app op kv db"
  have "\<not> db_wal_failed ?db1" "\<not> db_panicked ?db1"
    using Cons.prems(3,4) batch_fold_failed [of ?db1 L app op kvs] batch_fold_panicked [of ?db1 L app op kvs] by auto
  from batch_record_ok [OF Cons.prems(1,2) this] Cons.prems(3,4) Cons.IH [of ?db1] show ?case
    by simp
qed

lemma do_op_index:
  assumes "db_index_ok L db" "\<not> db_wal_failed (snd (snd (do_op L app op db)))"
    and "\<not> db_panicked (snd (snd (do_op L app op db)))"
  shows "db_index_ok L (snd (snd (do_op L app op db)))"
proof -
  let ?t = "op_table op"
  consider (create) "op_type op = opCreate" | (wr) "op_type op = opWrite" | (delete) "op_type op = opDelete"
    | (batch) "op_type op = opBatch" | (other) "op_type op \<notin> {opCreate, opWrite, opDelete, opBatch}"
    by blast
  then show ?thesis
  proof cases
    case create
    let ?db1 = "db\<lparr>db_data := gm_put ?t [] (db_data db)\<rparr>"
    have "db_index_ok L ?db1" if "gm_get (db_data db) ?t = None"
    proof -
      have "rows ?db1 = rows db"
        using that by (auto simp: rows_def row_key_def view_def fun_eq_iff)
      with assms(1) show ?thesis
        by (cases "db_indexMgr db") (simp_all add: db_index_ok_def)
    qed
    with create assms show ?thesis
      by (auto simp: do_op_def do_create_def Let_def log_append_index)
  next
    case wr
    then show ?thesis
      using assms index_update_ok [of L db ?t "op_key op" "op_value op"]
      by (auto simp: do_op_def do_write_def Let_def log_append_index db_op_defs)
  next
    case delete
    then show ?thesis
      using assms index_delete_ok [of L db ?t "op_key op"]
      by (auto simp: do_op_def do_delete_def Let_def log_append_index db_op_defs)
  next
    case batch
    then show ?thesis
      using assms batch_fold_ok [of L db op app "op_records op"]
      by (auto simp: do_op_def do_batch_def Let_def db_op_defs)
  next
    case other
    then show ?thesis
      using assms by (auto simp: do_op_def)
  qed
qed

lemma process_op_panicked: "db_panicked (snd (process_op L app op (s, db))) = db_panicked (snd (snd (do_op L app op db)))"
  by (simp add: process_op_eq Let_def)

lemma process_op_index: "db_index_ok L (snd (process_op L app op (s, db))) = db_index_ok L (snd (snd (do_op L app op db)))"
  by (rule index_ok_cong) (simp_all add: process_op_fields)

lemma run_ops_panicked: "db_panicked db \<Longrightarrow> db_panicked (snd (run_ops L app ops (s, db)))"
proof (induction ops arbitrary: s db)
  case (Cons op ops)
  then show ?case
    using Cons.IH [of "snd (process_op L app op (s, db))" "fst (process_op L app op (s, db))"]
    by (simp add: process_op_panicked do_op_panicked)
qed simp

lemma run_ops_index:
  "db_index_ok L db \<Longrightarrow> \<not> db_wal_failed (snd (run_ops L app ops (s, db))) \<Longrightarrow>
   \<not> db_panicked (snd (run_ops L app ops (s, db))) \<Longrightarrow> db_index_ok L (snd (run_ops L app ops (s, db)))"
proof (induction ops arbitrary: s db)
  case Nil
  then show ?case by simp
next
  case (Cons op ops)
  let ?s = "fst (process_op L app op (s, db))" and ?db = "snd (process_op L app op (s, db))"
  have "\<not> db_wal_failed ?db" "\<not> db_panicked ?db"
    using Cons.prems(2,3) run_ops_failed [of ?db L app ops ?s] run_ops_panicked [of ?db L app ops ?s] by auto
  then have "db_index_ok L ?db"
    using Cons.prems(1) do_op_index [of L db app op]
    by (simp add: process_op_fields process_op_panicked process_op_index)
  with Cons.IH [of ?db ?s] Cons.prems show ?case
    by simp
qed

lemma processBatch_panicked: "db_panicked (processBatch L app db) =
    (if db_pending db = [] then db_panicked db else db_panicked (snd (run_ops L app (db_pending db) (False, db))))"
  by (simp add: processBatch_eq Let_def)

lemma processBatch_index:
  assumes "db_index_ok L db" "\<not> db_wal_failed (processBatch L app db)" "\<not> db_panicked (processBatch L app db)"
  shows "db_index_ok L (processBatch L app db)"
proof (cases "db_pending db = []")
  case True
  then show ?thesis
    using assms(1) by (simp add: processBatch_def)
next
  case False
  then have "db_index_ok L (snd (run_ops L app (db_pending db) (False, db)))"
    using assms run_ops_index [of L db app "db_pending db" False]
    by (simp add: processBatch_eq Let_def split: if_splits)
  moreover have "db_data (processBatch L app db) = db_data (snd (run_ops L app (db_pending db) (False, db)))"
    "db_indexMgr (processBatch L app db) = db_indexMgr (snd (run_ops L app (db_pending db) (False, db)))"
    using False by (simp_all add: processBatch_eq Let_def)
  ultimately show ?thesis
    by (simp add: index_ok_cong [of "processBatch L app db" "snd (run_ops L app (db_pending db) (False, db))"])
qed

lemma mset_map_of:
  assumes "mset kvs = mset kvs'" "distinct (map fst kvs')"
  shows "distinct (map fst kvs) \<and> map_of kvs = map_of kvs'"
proof -
  have "mset (map fst kvs) = mset (map fst kvs')"
    using assms(1) by simp
  then have d: "distinct (map fst kvs)"
    using assms(2) by (metis mset_eq_imp_distinct_iff)
  have "set kvs = set kvs'"
    using assms(1) by (metis set_mset_mset)
  with d assms(2) show ?thesis
    by (simp add: map_of_inject_set)
qed

lemma db_CreateIndex_ok:
  assumes "db_index_ok L db" "\<forall>t r. gm_get (db_data db) t = Some r \<longrightarrow> gm_wf r"
    and "db_CreateIndex L t f seen db = (None, db')" "mset seen = mset (tableData t db)"
  shows "db_index_ok L db'"
proof -
  obtain m m' where m: "db_indexMgr db = Some m" and m': "CreateIndex L t f seen m = Inr m'"
    and db': "db_data db' = db_data db" "db_indexMgr db' = Some m'"
    using assms(3) by (auto simp: db_CreateIndex_def split: option.splits if_splits sum.splits)
  have "distinct (map fst (tableData t db))"
    using assms(2) by (auto simp: tableData_def gm_wf_def split: option.split)
  from mset_map_of [OF assms(4) this] have seen: "distinct (map fst seen)" "map_of seen = map_of (tableData t db)"
    by simp_all
  moreover have "rows db t = map_of (tableData t db)"
    by (auto simp: tableData_def rows_def row_key_def view_def fun_eq_iff split: option.split)
  ultimately have "indexes_ok L m' (rows db)"
    using CreateIndex_ok(1) [OF _ seen(1) _ m', of "rows db"] assms(1) m by (simp add: db_index_ok_def)
  moreover have "mgr_wf m'"
    using m' assms(1) m by (auto simp: db_index_ok_def CreateIndex_def split: if_splits sum.splits)
  ultimately show ?thesis
    using rows_cong [OF db'(1)] by (simp add: db'(2) db_index_ok_def)
qed

section \<open>QueryByIndex\<close>

lemma pick_rows: "pick r ks = map (\<lambda>k. the (gm_get r k)) (filter (\<lambda>k. gm_get r k \<noteq> None) ks)"
  by (induction ks) (auto split: option.split)

lemma QueryByIndex_rows:
  assumes "db_index_ok L db" "db_indexMgr db = Some m" "dc_EnableIndexes (db_config db)"
    and "find_index m t f \<noteq> None" "formatIndexValue L v = Inr s"
  obtains ks where "distinct ks" "set ks = {k. \<exists>u. rows db t k = Some u \<and> index_key L f u = Inr (Some s)}"
    "\<And>db'. QueryByIndex L t f v db db' = Inr (map (\<lambda>k. the (rows db' t k)) (filter (\<lambda>k. rows db' t k \<noteq> None) ks))"
proof -
  obtain i where i: "find_index m t f = Some i"
    using assms(4) by blast
  have tr: "tracks L f i (rows db t)"
    using assms(1,2) i by (simp add: db_index_ok_def indexes_ok_def)
  have q: "Query L t f v m = Inr (bucket i s)"
    using Query_tracked [OF i assms(5)] .
  have set: "set (bucket i s) = {k. \<exists>u. rows db t k = Some u \<and> index_key L f u = Inr (Some s)}"
    using tracksD(4) [OF tr] by auto
  have "(case gm_get (db_data db') t of None \<Rightarrow> [] | Some r \<Rightarrow> pick r ks) =
      map (\<lambda>k. the (rows db' t k)) (filter (\<lambda>k. rows db' t k \<noteq> None) ks)" for ks and db' :: "'a db"
    by (simp add: pick_rows rows_def row_key_def view_def split: option.split)
  then show ?thesis
    using assms(2,3) q by (intro that [OF tracksD(3) [OF tr] set]) (simp add: QueryByIndex_def)
qed

text \<open>The unlocked loop of \<^verbatim>\<open>CreateIndex\<close> races with the worker. When it runs after the worker has stored a new
  record and before the worker reports it to the indexes, the record is indexed twice, and a query
  returns it twice.\<close>
lemma index_build_race:
  fixes db :: "'w db" and k :: string
  assumes "db_indexMgr db = Some m" "dc_EnableIndexes (db_config db)" "find_index m t f = None"
    and "gm_get (db_data db) t = Some []" "index_key L f v = Inr (Some s)"
    and "GetIndexedFields t m = []"
  defines "db1 \<equiv> db\<lparr>db_data := set_key t k v (db_data db)\<rparr>"
  defines "db2 \<equiv> snd (db_CreateIndex L t f (tableData t db1) db1)"
  shows "\<exists>m'. db_indexMgr (index_update L t k VNil v db2) = Some m' \<and>
     (\<forall>q. formatIndexValue L q = Inr s \<longrightarrow> Query L t f q m' = Inr [k, k])"
proof -
  have v: "v \<noteq> VNil"
    using assms(5) by auto
  have td: "tableData t db1 = [(k, v)]"
    using assms(4) by (simp add: tableData_def db1_def set_key_def)
  have add: "add_key L f k v i = Inr (gm_put s (bucket i s @ [k]) i)" for i
    using assms(5) by (auto simp: add_key_def index_key_def bucket_def split: option.splits sum.splits)
  let ?m = "set_index t f [(s, [k])] m" and ?m' = "set_index t f [(s, [k, k])] (set_index t f [(s, [k])] m)"
  have "db_indexMgr db2 = Some ?m"
    using assms(1,2,3) td add [of "[]"] by (simp add: db2_def db1_def db_CreateIndex_def CreateIndex_def bucket_def)
  moreover have "GetIndexedFields t ?m = [f]"
    using assms(6) by (simp add: GetIndexedFields_def set_index_def split: option.splits)
  moreover have "UpdateIndex L t f k VNil v ?m = Inr ?m'"
    using v add [of "[(s, [k])]"] by (simp add: UpdateIndex_def change_key_def bucket_def)
  ultimately have "db_indexMgr (index_update L t k VNil v db2) = Some ?m'"
    by (simp add: index_update_def index_call_def)
  moreover have "Query L t f q ?m' = Inr [k, k]" if "formatIndexValue L q = Inr s" for q
    using Query_tracked [OF _ that, of ?m' t f "[(s, [k, k])]"] by (simp add: bucket_def)
  ultimately show ?thesis
    by blast
qed

lemma CommitTransaction_keeps:
  "CommitTransaction a db = (r, db') \<Longrightarrow> db_indexMgr db' = db_indexMgr db \<and> db_config db' = db_config db \<and>
   db_wal db' = db_wal db \<and> db_wal_failed db' = db_wal_failed db \<and> db_pending db' = db_pending db \<and>
   db_writeBuffer db' = db_writeBuffer db \<and> db_pendingOps db' = db_pendingOps db \<and> db_replies db' = db_replies db \<and>
   db_accepted db' = db_accepted db \<and> db_bufferClosed db' = db_bufferClosed db \<and> db_panicked db' = db_panicked db \<and>
   db_waiting db' = db_waiting db \<and> db_ctxDone db' = db_ctxDone db \<and> db_workerDone db' = db_workerDone db \<and>
   db_workerIdle db' = db_workerIdle db \<and> db_index_raced db' = db_index_raced db"
  by (auto simp: CommitTransaction_def Let_def split: option.splits prod.splits sum.splits if_splits)

end
