(* ===== verification/Persist.thy ===== *)
theory Persist
  imports Worker Logger Backup Wal
begin

text \<open>
  The persistence half of \<^verbatim>\<open>database.go\<close>, and \<^verbatim>\<open>flush.go\<close>: saving, reloading, import and export, change
  of key, flush, start and shutdown. The file system is passed explicitly; \<open>rnd\<close> is the nonce an
  encryption draws, \<open>fault\<close> where a write fails, \<open>now\<close> the time and \<open>io\<close> whether reading works.
\<close>

section \<open>Saving\<close>

text \<open>\<^verbatim>\<open>flushToDisk\<close> holds the read lock only while it saves; what it does when the save succeeded
  is a second step, and operations may run in between.\<close>

definition flush_mark :: "nat \<Rightarrow> 64 word \<Rightarrow> 'w db \<Rightarrow> 'w db" where
  "flush_mark now elapsed db =
     on_metrics (RecordSaveDuration now elapsed) (db\<lparr>db_dirtyFlag := False, db_lastSave := now\<rparr>)"

definition flush_save :: "golib \<Rightarrow> bytes option \<Rightarrow> fault \<Rightarrow> nat \<Rightarrow> 'w db \<Rightarrow> fs \<Rightarrow> goerror option \<times> fs" where
  "flush_save L rnd fault now db fs = Save L rnd fault now (db_data db) (db_storage db) fs"

definition flushToDisk :: "golib \<Rightarrow> bytes option \<Rightarrow> fault \<Rightarrow> nat \<Rightarrow> 64 word \<Rightarrow> 'w db \<Rightarrow> fs \<Rightarrow>
    goerror option \<times> 'w db \<times> fs" where
  "flushToDisk L rnd fault now elapsed db fs =
     (case flush_save L rnd fault now db fs of
        (None, fs') \<Rightarrow> (None, flush_mark now elapsed db, fs')
      | (Some e, fs') \<Rightarrow> (Some e, db, fs'))"

definition periodicSave_tick :: "golib \<Rightarrow> bytes option \<Rightarrow> fault \<Rightarrow> nat \<Rightarrow> 64 word \<Rightarrow> 'w db \<Rightarrow> fs \<Rightarrow> 'w db \<times> fs" where
  "periodicSave_tick L rnd fault now elapsed db fs =
     (if db_dirtyFlag db then
        (case flushToDisk L rnd fault now elapsed db fs of
           (None, db', fs') \<Rightarrow> (db', fs')
         | (Some _, db', fs') \<Rightarrow> (on_metrics IncrementFailedOps db', fs'))
      else (db, fs))"

definition periodicSave_done :: "golib \<Rightarrow> bytes option \<Rightarrow> fault \<Rightarrow> nat \<Rightarrow> 64 word \<Rightarrow> 'w db \<Rightarrow> fs \<Rightarrow> 'w db \<times> fs" where
  "periodicSave_done L rnd fault now elapsed db fs =
     (if db_dirtyFlag db then snd (flushToDisk L rnd fault now elapsed db fs) else (db, fs))"

section \<open>Loading\<close>

definition load :: "golib \<Rightarrow> bool \<Rightarrow> 'w db \<Rightarrow> fs \<Rightarrow> goerror option \<times> 'w db" where
  "load L io db fs =
     (case Load L io (db_storage db) fs of
        Inl e \<Rightarrow> (Some e, db)
      | Inr (data, modTime) \<Rightarrow> (None, db\<lparr>db_data := data, db_lastLoaded := modTime\<rparr>))"

text \<open>\<open>ios\<close>: one outcome of the reading for each of the \<^verbatim>\<open>MaxRetries\<close> attempts.\<close>

fun loadWithRetry :: "golib \<Rightarrow> bool list \<Rightarrow> 'w db \<Rightarrow> fs \<Rightarrow> goerror option \<times> 'w db" where
  "loadWithRetry L [] db fs = (Some ErrLoadRetries, db)"
| "loadWithRetry L (io # ios) db fs =
     (case load L io db fs of
        (None, db') \<Rightarrow> (None, db')
      | (Some _, db') \<Rightarrow> loadWithRetry L ios db' fs)"

text \<open>One tick of \<^verbatim>\<open>fileOnChange\<close> while the database is open.\<close>

definition fileOnChange_tick :: "golib \<Rightarrow> bool \<Rightarrow> 'w db \<Rightarrow> fs \<Rightarrow> 'w db" where
  "fileOnChange_tick L io db fs =
     (if db_closed db then db
      else (case fs (GetPath (db_storage db)) of
              None \<Rightarrow> db
            | Some f \<Rightarrow>
                if f_time f = db_lastLoaded db \<and> db_lastLoaded db \<noteq> 0 then db
                else if db_dirtyFlag db \<or> 0 <s db_pendingOps db then db
                else snd (load L io db fs)))"

definition createBackupSnapshot :: "golib \<Rightarrow> bytes option \<Rightarrow> 'w db \<Rightarrow> bytes res" where
  "createBackupSnapshot L rnd db = Serialize L rnd (db_data db) (db_storage db)"

text \<open>A tick of the backup goroutine, when backups are enabled.\<close>

definition backup_tick :: "golib \<Rightarrow> bytes option \<Rightarrow> string \<Rightarrow> nat \<Rightarrow> nat option \<Rightarrow> 'w db \<Rightarrow> bdir \<Rightarrow> 'w db \<times> bdir" where
  "backup_tick L rnd ts now written db d =
     (case db_backupMgr db of
        None \<Rightarrow> (db, d)
      | Some m \<Rightarrow>
          if \<not> dc_EnableBackup (db_config db) then (db, d)
          else (case CreateBackup (createBackupSnapshot L rnd db) ts now written m d of
                  (_, m', d') \<Rightarrow> (db\<lparr>db_backupMgr := Some m'\<rparr>, d')))"

section \<open>Import, export, change of key\<close>

definition Export :: "golib \<Rightarrow> fault \<Rightarrow> nat \<Rightarrow> key \<Rightarrow> string \<Rightarrow> 'w db \<Rightarrow> fs \<Rightarrow> goerror option \<times> fs" where
  "Export L fault now key path db fs =
     (if db_closed db then (Some ErrDatabaseClosed, fs)
      else if \<not> IsEqual key (dc_EncryptionKey (db_config db)) then (Some ErrUnauthorized, fs)
      else ExportPlain L fault now (db_data db) path fs)"

definition db_ExportEncrypted :: "golib \<Rightarrow> bytes option \<Rightarrow> fault \<Rightarrow> nat \<Rightarrow> key \<Rightarrow> string \<Rightarrow> 'w db \<Rightarrow> fs \<Rightarrow>
    goerror option \<times> fs" where
  "db_ExportEncrypted L rnd fault now key path db fs =
     (if db_closed db then (Some ErrDatabaseClosed, fs)
      else if \<not> IsEqual key (dc_EncryptionKey (db_config db)) then (Some ErrUnauthorized, fs)
      else ExportEncrypted L rnd fault now (db_data db) path (db_storage db) fs)"

text \<open>The common end of both imports: replace the data, then save.\<close>

definition import_data :: "golib \<Rightarrow> bytes option \<Rightarrow> fault \<Rightarrow> nat \<Rightarrow> 64 word \<Rightarrow> tables res \<Rightarrow> 'w db \<Rightarrow> fs \<Rightarrow>
    goerror option \<times> 'w db \<times> fs" where
  "import_data L rnd fault now elapsed r db fs =
     (case r of
        Inl e \<Rightarrow> (Some e, db, fs)
      | Inr data \<Rightarrow>
          flushToDisk L rnd fault now elapsed (db\<lparr>db_data := data, db_dirtyFlag := True\<rparr>) fs)"

definition Import :: "golib \<Rightarrow> bytes option \<Rightarrow> fault \<Rightarrow> nat \<Rightarrow> 64 word \<Rightarrow> key \<Rightarrow> string \<Rightarrow> 'w db \<Rightarrow> fs \<Rightarrow>
    goerror option \<times> 'w db \<times> fs" where
  "Import L rnd fault now elapsed key path db fs =
     (if db_closed db then (Some ErrDatabaseClosed, db, fs)
      else if \<not> IsEqual key (dc_EncryptionKey (db_config db)) then (Some ErrUnauthorized, db, fs)
      else import_data L rnd fault now elapsed (ImportPlain L path fs) db fs)"

definition db_ImportEncrypted :: "golib \<Rightarrow> bytes option \<Rightarrow> fault \<Rightarrow> nat \<Rightarrow> 64 word \<Rightarrow> key \<Rightarrow> string \<Rightarrow> 'w db \<Rightarrow> fs \<Rightarrow>
    goerror option \<times> 'w db \<times> fs" where
  "db_ImportEncrypted L rnd fault now elapsed key path db fs =
     (if db_closed db then (Some ErrDatabaseClosed, db, fs)
      else if \<not> IsEqual key (dc_EncryptionKey (db_config db)) then (Some ErrUnauthorized, db, fs)
      else import_data L rnd fault now elapsed (ImportEncrypted L path (db_storage db) fs) db fs)"

definition ChangeKey :: "golib \<Rightarrow> bytes option \<Rightarrow> fault \<Rightarrow> nat \<Rightarrow> 64 word \<Rightarrow> key \<Rightarrow> key \<Rightarrow> 'w db \<Rightarrow> fs \<Rightarrow>
    goerror option \<times> 'w db \<times> fs" where
  "ChangeKey L rnd fault now elapsed oldKey newKey db fs =
     (if db_closed db then (Some ErrDatabaseClosed, db, fs)
      else if \<not> IsEqual (dc_EncryptionKey (db_config db)) oldKey then (Some ErrKeyMismatch, db, fs)
      else flushToDisk L rnd fault now elapsed
             (db\<lparr>db_config := (db_config db)\<lparr>dc_EncryptionKey := newKey\<rparr>,
                 db_storage := UpdateKey newKey (db_storage db), db_dirtyFlag := True\<rparr>) fs)"

section \<open>Status\<close>

definition GetMetrics :: "'w db \<Rightarrow> collector" where
  "GetMetrics db = (case db_metrics db of None \<Rightarrow> NewCollector 0 | Some c \<Rightarrow> GetSnapshot c)"

record status =
  st_uptime :: nat
  st_closed :: bool
  st_dirty :: bool
  st_total_reads :: "64 word"
  st_total_writes :: "64 word"
  st_total_deletes :: "64 word"
  st_failed_ops :: "64 word"
  st_avg_read_latency :: "64 word"
  st_avg_write_latency :: "64 word"
  st_buffered_ops :: nat
  st_last_save :: nat

definition GetStatus :: "nat \<Rightarrow> 'w db \<Rightarrow> status" where
  "GetStatus now db =
     (let m = GetMetrics db in
      \<lparr>st_uptime = now - mc_uptime m, st_closed = db_closed db, st_dirty = db_dirtyFlag db,
       st_total_reads = mc_totalReads m, st_total_writes = mc_totalWrites m,
       st_total_deletes = mc_totalDeletes m, st_failed_ops = mc_failedOps m,
       st_avg_read_latency = mc_avgReadLatency m, st_avg_write_latency = mc_avgWriteLatency m,
       st_buffered_ops = length (db_writeBuffer db), st_last_save = db_lastSave db\<rparr>)"

section \<open>flush.go\<close>

text \<open>\<^verbatim>\<open>waitForPendingOps\<close> polls the counter; each poll sees whether it is zero and, if not, whether the
  context is done. The end of the list is the time-out.\<close>

fun waitForPendingOps :: "(bool \<times> bool) list \<Rightarrow> goerror option" where
  "waitForPendingOps [] = Some ErrTimeout"
| "waitForPendingOps ((zero, done) # ps) =
     (if zero then None else if done then Some ErrShuttingDown else waitForPendingOps ps)"

definition verifyFlush :: "golib \<Rightarrow> bool \<Rightarrow> 'w db \<Rightarrow> fs \<Rightarrow> goerror option \<times> 'w db" where
  "verifyFlush L io db fs =
     (case Load L io (db_storage db) fs of
        Inl e \<Rightarrow> (Some e, db)
      | Inr (data, modTime) \<Rightarrow>
          (case json_marshal L (tables_val (db_data db)) of
             None \<Rightarrow> (Some ErrJson, db)
           | Some a \<Rightarrow>
               (case json_marshal L (tables_val data) of
                  None \<Rightarrow> (Some ErrJson, db)
                | Some b \<Rightarrow>
                    if a \<noteq> b then (Some ErrVerify, db) else (None, db\<lparr>db_lastLoaded := modTime\<rparr>))))"

text \<open>\<^verbatim>\<open>Flush\<close> after its wait, in one critical section; \<open>sync\<close> is the log's \<^verbatim>\<open>Sync\<close>, whose failure is
  only counted.\<close>

definition flush_locked :: "golib \<Rightarrow> bytes option \<Rightarrow> fault \<Rightarrow> nat \<Rightarrow> bool \<Rightarrow> 64 word \<Rightarrow> ('w \<Rightarrow> goerror option \<times> 'w) \<Rightarrow>
    'w db \<Rightarrow> fs \<Rightarrow> goerror option \<times> 'w db \<times> fs" where
  "flush_locked L rnd fault now io elapsed sync db fs =
     (if db_closed db then (Some ErrDatabaseClosed, db, fs)
      else if \<not> db_dirtyFlag db then (None, db, fs)
      else (case Save L rnd fault now (db_data db) (db_storage db) fs of
              (Some e, fs1) \<Rightarrow> (Some e, db, fs1)
            | (None, fs1) \<Rightarrow>
                (case verifyFlush L io db fs1 of
                   (Some e, db1) \<Rightarrow> (Some e, db1, fs1)
                 | (None, db1) \<Rightarrow>
                     (let db2 = (case db_wal db1 of
                                   None \<Rightarrow> db1
                                 | Some w \<Rightarrow>
                                     (case sync w of
                                        (None, w') \<Rightarrow> db1\<lparr>db_wal := Some w'\<rparr>
                                      | (Some _, w') \<Rightarrow> on_metrics IncrementFailedOps (db1\<lparr>db_wal := Some w'\<rparr>)))
                      in (None, on_metrics (RecordSaveDuration now elapsed)
                                  (db2\<lparr>db_dirtyFlag := False, db_lastSave := now\<rparr>), fs1)))))"

definition Flush :: "(bool \<times> bool) list \<Rightarrow> golib \<Rightarrow> bytes option \<Rightarrow> fault \<Rightarrow> nat \<Rightarrow> bool \<Rightarrow> 64 word \<Rightarrow>
    ('w \<Rightarrow> goerror option \<times> 'w) \<Rightarrow> 'w db \<Rightarrow> fs \<Rightarrow> goerror option \<times> 'w db \<times> fs" where
  "Flush polls L rnd fault now io elapsed sync db fs =
     (if db_closed db then (Some ErrDatabaseClosed, db, fs)
      else (case waitForPendingOps polls of
              Some e \<Rightarrow> (Some e, db, fs)
            | None \<Rightarrow> flush_locked L rnd fault now io elapsed sync db fs))"

section \<open>Shutdown\<close>

text \<open>The first part of \<^verbatim>\<open>CloseWithTimeout\<close>, step by step: from here on clients are refused; the channel is
  closed; and the context, which is also the log's, is done. Only the call that set \<^verbatim>\<open>closed\<close> goes on.\<close>

definition Close_mark :: "'w db \<Rightarrow> 'w db" where
  "Close_mark db = db\<lparr>db_closed := True\<rparr>"

definition Close_channel :: "'w db \<Rightarrow> 'w db" where
  "Close_channel db = db\<lparr>db_bufferClosed := True\<rparr>"

definition Close_cancel :: "'w db \<Rightarrow> 'w db" where
  "Close_cancel db = db\<lparr>db_ctxDone := True\<rparr>"

definition Close_begin :: "'w db \<Rightarrow> 'w db" where
  "Close_begin db = (if db_closed db then db else Close_cancel (Close_channel (Close_mark db)))"

lemmas Close_defs = Close_begin_def Close_mark_def Close_channel_def Close_cancel_def

text \<open>The goroutine that waits for the workers: it runs when all of them have returned, and closes the
  log with \<open>close\<close>.\<close>

definition Close_finish :: "golib \<Rightarrow> bytes option \<Rightarrow> fault \<Rightarrow> nat \<Rightarrow> 64 word \<Rightarrow> ('w \<Rightarrow> 'w) \<Rightarrow> 'w db \<Rightarrow> fs \<Rightarrow> 'w db \<times> fs" where
  "Close_finish L rnd fault now elapsed close db fs =
     (case (if db_dirtyFlag db then snd (flushToDisk L rnd fault now elapsed db fs) else (db, fs)) of
        (db1, fs1) \<Rightarrow> (db1\<lparr>db_wal := map_option close (db_wal db1)\<rparr>, fs1))"

text \<open>What \<^verbatim>\<open>CloseWithTimeout\<close> returns: \<open>already\<close>, the database was closed before; \<open>finished\<close>, the
  goroutine came back in time.\<close>

definition CloseWithTimeout_result :: "bool \<Rightarrow> bool \<Rightarrow> goerror option" where
  "CloseWithTimeout_result already finished =
     (if already \<or> finished then None else Some ErrTimeout)"

section \<open>Start\<close>

definition wal_cfg_of :: "db_config \<Rightarrow> wal_cfg" where
  "wal_cfg_of c =
     \<lparr>wc_key = dc_EncryptionKey c, wc_BatchSize = 0, wc_MaxSize = 100 * 1024 * 1024, wc_GroupCommit = False\<rparr>"

definition initial_db :: "db_config \<Rightarrow> engine \<Rightarrow> wal db" where
  "initial_db c e =
     \<lparr>db_data = [], db_storage = e, db_wal = None, db_indexMgr = None, db_txManager = None, db_backupMgr = None,
      db_metrics = None,
      db_config = c, db_closed = False, db_ctxDone = False, db_waiting = [], db_writeBuffer = [], db_bufferClosed = False,
      db_pending = [], db_workerIdle = False, db_workerDone = False, db_dirtyFlag = False, db_lastLoaded = 0, db_lastSave = 0,
      db_pendingOps = 0, db_version = 0, db_replies = [], db_accepted = [], db_wal_failed = False,
      db_panicked = False, db_index_raced = False\<rparr>"

text \<open>\<^verbatim>\<open>InitWithConfig\<close> from the effective configuration on. \<open>ios\<close> are the outcomes of the attempts to
  read the state file, \<open>walfile\<close> the contents of the log file (empty when there was none), or
  \<^const>\<open>None\<close> when it cannot be opened.\<close>

definition InitWithConfig :: "path_env \<Rightarrow> golib \<Rightarrow> pblib \<Rightarrow> db_config option \<Rightarrow> bool list \<Rightarrow> bytes option \<Rightarrow> nat \<Rightarrow> fs \<Rightarrow>
    wal db res option" where
  "InitWithConfig env L P cfg ios walfile now fs =
     (case effective_config env cfg of
        None \<Rightarrow> None
      | Some (Inl err) \<Rightarrow> Some (Inl err)
      | Some (Inr c) \<Rightarrow>
          (case GetStateDBPath env (dc_DirPath c) of
             None \<Rightarrow> None
           | Some path \<Rightarrow>
               (let e = storage_New path (dc_EncryptionKey c) (dc_EnableCompression c) (nat (dc_MaxRetries c));
                    db0 = initial_db c e
                in (case loadWithRetry L (take (nat (dc_MaxRetries c)) ios) db0 fs of
                      (Some err, _) \<Rightarrow> Some (Inl err)
                    | (None, db1) \<Rightarrow>
                        (let finish = (\<lambda>db. db\<lparr>
                               db_indexMgr := (if dc_EnableIndexes c then Some Index.NewManager else None),
                               db_txManager := (if dc_EnableTransactions c then Some tx_NewManager else None),
                               db_backupMgr := (if dc_EnableBackup c then Some (backup_NewManager (dc_BackupDir c) 10) else None),
                               db_metrics := (if dc_MetricsEnabled c then Some (NewCollector now) else None)\<rparr>)
                         in if dc_EnableWAL c then
                              (case (GetHomeSubDir env [] (dc_DirPath c), walfile) of
                                 (None, _) \<Rightarrow> None
                               | (Some _, None) \<Rightarrow> Some (Inl ErrIO)
                               | (Some _, Some content) \<Rightarrow>
                                   Some (Inr (finish (db1\<lparr>
                                     db_wal := Some (wal_New (wal_cfg_of c) content),
                                     db_data := recoverFromWAL (ReadAll L P (dc_EncryptionKey c) content)
                                                  (db_data db1)\<rparr>))))
                            else Some (Inr (finish db1)))))))"

end
