(* ===== verification/System.thy ===== *)
theory System
  imports DbIndex Persist
begin

text \<open>
  The database as a whole: clients, the worker, transactions, reloads and imports as steps of one
  transition relation, the history of what was applied, and the invariants of every reachable state.
\<close>

section \<open>Histories\<close>

datatype event = EvOp wop | EvCommit tables | EvLoad tables

definition commit_world :: "tables \<Rightarrow> world \<Rightarrow> world" where
  "commit_world c W =
     fold (\<lambda>(t, kvs) W. fold (\<lambda>(k, v). if v = VNil then del_row t k else put_row t k v) kvs (ensure_row t W)) c W"

fun event_world :: "event \<Rightarrow> world \<Rightarrow> world" where
  "event_world (EvOp op) W = snd (spec_op op W)"
| "event_world (EvCommit c) W = commit_world c W"
| "event_world (EvLoad d) W = view d"

fun event_answers :: "event \<Rightarrow> world \<Rightarrow> (nat \<times> goerror option) list" where
  "event_answers (EvOp op) W = [(op_ch op, fst (spec_op op W))]"
| "event_answers _ W = []"

fun event_entries :: "event \<Rightarrow> world \<Rightarrow> wal_entry list" where
  "event_entries (EvOp op) W = op_entries op W"
| "event_entries _ W = []"

definition after :: "event list \<Rightarrow> world \<Rightarrow> world" where
  "after h W = fold event_world h W"

fun answers :: "event list \<Rightarrow> world \<Rightarrow> (nat \<times> goerror option) list" where
  "answers [] W = []"
| "answers (e # h) W = event_answers e W @ answers h (event_world e W)"

fun entries :: "event list \<Rightarrow> world \<Rightarrow> wal_entry list" where
  "entries [] W = []"
| "entries (e # h) W = event_entries e W @ entries h (event_world e W)"

fun ops_of :: "event list \<Rightarrow> wop list" where
  "ops_of [] = []"
| "ops_of (EvOp op # h) = op # ops_of h"
| "ops_of (_ # h) = ops_of h"

lemma after_simps [simp]: "after [] W = W" "after (e # h) W = after h (event_world e W)" "after (h @ h') W = after h' (after h W)"
  by (simp_all add: after_def)

lemma answers_append [simp]: "answers (h @ h') W = answers h W @ answers h' (after h W)"
  by (induction h arbitrary: W) simp_all

lemma entries_append [simp]: "entries (h @ h') W = entries h W @ entries h' (after h W)"
  by (induction h arbitrary: W) simp_all

lemma ops_of_append [simp]: "ops_of (h @ h') = ops_of h @ ops_of h'"
  by (induction h rule: ops_of.induct) simp_all

lemma ops_of_ops [simp]: "ops_of (map EvOp ops) = ops"
  by (induction ops) simp_all

lemma after_ops [simp]: "after (map EvOp ops) W = snd (spec_ops ops W)"
  by (induction ops arbitrary: W) (simp_all add: split_beta)

lemma answers_ops [simp]: "answers (map EvOp ops) W = fst (spec_ops ops W)"
  by (induction ops arbitrary: W) (simp_all add: split_beta)

lemma entries_ops [simp]: "entries (map EvOp ops) W = ops_entries ops W"
  by (induction ops arbitrary: W) simp_all

lemma view_apply_record: "view (apply_record t kv d) = (if snd kv = VNil then del_row t (fst kv) (view d) else put_row t (fst kv) (snd kv) (view d))"
  by (simp add: apply_record_def)

lemma view_fold_record:
  "view (fold (apply_record t) kvs d) = fold (\<lambda>(k, v). if v = VNil then del_row t k else put_row t k v) kvs (view d)"
  by (induction kvs arbitrary: d) (auto simp: view_apply_record)

lemma view_ensure: "view (ensure_table t d) = ensure_row t (view d)"
  by (simp add: ensure_row_def)

lemma view_apply_changes: "view (apply_changes c d) = commit_world c (view d)"
proof (induction c arbitrary: d)
  case Nil
  then show ?case by (simp add: apply_changes_def commit_world_def)
next
  case (Cons tr c)
  obtain t kvs where tr: "tr = (t, kvs)"
    by (cases tr)
  show ?case
    using Cons.IH [of "fold (apply_record t) kvs (ensure_table t d)"]
    by (simp add: tr apply_changes_def commit_world_def view_fold_record view_ensure del: view_ensure_table)
qed

section \<open>Steps\<close>

text \<open>The worker, which runs until it is done: the only case of its first \<^verbatim>\<open>select\<close>, or one of the ready cases of
  its second one. The ticker can fire at any time.\<close>

inductive worker_step :: "golib \<Rightarrow> 'w appender \<Rightarrow> 'w db \<Rightarrow> 'w db \<Rightarrow> bool" for L app where
  ws_recv: "\<not> db_workerDone db \<Longrightarrow> \<not> db_workerIdle db \<Longrightarrow> worker_step L app db (worker_recv L app db)"
| ws_idle: "\<not> db_workerDone db \<Longrightarrow> db_workerIdle db \<Longrightarrow> db_writeBuffer db \<noteq> [] \<or> db_bufferClosed db \<Longrightarrow>
    worker_step L app db (worker_idle_recv L app db)"
| ws_tick: "\<not> db_workerDone db \<Longrightarrow> db_workerIdle db \<Longrightarrow> worker_step L app db (worker_tick L app db)"
| ws_done: "\<not> db_workerDone db \<Longrightarrow> db_workerIdle db \<Longrightarrow> db_ctxDone db \<Longrightarrow>
    worker_step L app db (worker_ctx_done L app db)"

text \<open>The operations a worker step has executed.\<close>

definition handled :: "'w db \<Rightarrow> 'w db \<Rightarrow> wop list" where
  "handled db db' =
     (if db_pending db' = []
      then db_pending db @ take (length (db_writeBuffer db) - length (db_writeBuffer db')) (db_writeBuffer db)
      else [])"

text \<open>Steps that change neither the data nor the queue: reads, indexes, transactions that are not
  committed, metrics, marking the data as saved, the steps of the shutdown. An index build may see any
  records (\<open>qs_index\<close>); one that overlaps a batch of the worker, which is a single step here, may leave
  any indexes behind, or end the process (\<open>qs_race\<close>). Both are recorded in \<open>db_index_raced\<close>.\<close>

inductive quiet_step :: "golib \<Rightarrow> 'w db \<Rightarrow> 'w db \<Rightarrow> bool" for L where
  qs_read: "quiet_step L db (snd (Read elapsed t k db))"
| qs_read_batch: "quiet_step L db (snd (ReadBatch L t db))"
| qs_write_done: "quiet_step L db (Write_done elapsed db)"
| qs_index: "quiet_step L db (snd (db_CreateIndex L t f seen db))"
| qs_race: "quiet_step L db (db\<lparr>db_indexMgr := im, db_index_raced := True, db_panicked := (db_panicked db \<or> p)\<rparr>)"
| qs_begin: "quiet_step L db (snd (BeginTransaction L now db))"
| qs_tx_write: "db_txManager db = Some m \<Longrightarrow> a < length (tx_store m) \<Longrightarrow>
    quiet_step L db (db\<lparr>db_txManager := Some (snd (tx_Write a t k v m))\<rparr>)"
| qs_tx_delete: "db_txManager db = Some m \<Longrightarrow> a < length (tx_store m) \<Longrightarrow>
    quiet_step L db (db\<lparr>db_txManager := Some (snd (tx_Delete a t k m))\<rparr>)"
| qs_mark: "quiet_step L db (flush_mark now elapsed db)"
| qs_failed: "quiet_step L db (on_metrics IncrementFailedOps db)"
| qs_mark_closed: "\<not> db_closed db \<Longrightarrow> quiet_step L db (Close_mark db)"
| qs_channel: "db_closed db \<Longrightarrow> \<not> db_bufferClosed db \<Longrightarrow> quiet_step L db (Close_channel db)"
| qs_cancel: "db_bufferClosed db \<Longrightarrow> quiet_step L db (Close_cancel db)"

text \<open>A client that has passed the check of \<^verbatim>\<open>closed\<close> announces its operation at any later time, whatever has
  happened since; the \<^verbatim>\<open>select\<close> is a step of its own.\<close>

inductive db_run :: "golib \<Rightarrow> 'w appender \<Rightarrow> ('w \<Rightarrow> 'w \<Rightarrow> bool) \<Rightarrow> 'w db \<Rightarrow> event list \<Rightarrow> 'w db \<Rightarrow> bool"
  for L app bg db0
where
  dr_init: "db_run L app bg db0 [] db0"
| dr_announce: "db_run L app bg db0 h db \<Longrightarrow> db_run L app bg db0 h (announce op db)"
| dr_send: "db_run L app bg db0 h db \<Longrightarrow> op \<in> set (db_waiting db) \<Longrightarrow> can_choose choice db \<Longrightarrow>
    db_run L app bg db0 h (snd (enqueue choice op db))"
| dr_worker: "db_run L app bg db0 h db \<Longrightarrow> worker_step L app db db' \<Longrightarrow>
    db_run L app bg db0 (h @ map EvOp (handled db db')) db'"
| dr_quiet: "db_run L app bg db0 h db \<Longrightarrow> quiet_step L db db' \<Longrightarrow> db_run L app bg db0 h db'"
| dr_commit: "db_run L app bg db0 h db \<Longrightarrow> db_txManager db = Some m \<Longrightarrow> a < length (tx_store m) \<Longrightarrow>
    CommitTransaction a db = (r, db') \<Longrightarrow>
    db_run L app bg db0 (h @ (if r = None then [EvCommit (tx_Changes (tx_store m ! a))] else [])) db'"
| dr_load: "db_run L app bg db0 h db \<Longrightarrow>
    db_run L app bg db0 (h @ [EvLoad d]) (db\<lparr>db_data := d, db_lastLoaded := t, db_dirtyFlag := b\<rparr>)"
| dr_log: "db_run L app bg db0 h db \<Longrightarrow> db_wal db = Some w \<Longrightarrow> bg w w' \<Longrightarrow>
    db_run L app bg db0 h (db\<lparr>db_wal := Some w'\<rparr>)"

text \<open>A database as \<^verbatim>\<open>InitWithConfig\<close> leaves it: nothing queued, nothing answered, not closed.\<close>

definition fresh :: "'w db \<Rightarrow> bool" where
  "fresh db \<longleftrightarrow> db_writeBuffer db = [] \<and> db_pending db = [] \<and> db_pendingOps db = 0 \<and> db_replies db = [] \<and>
     db_accepted db = [] \<and> \<not> db_wal_failed db \<and> \<not> db_panicked db \<and> db_version db = 0 \<and>
     db_waiting db = [] \<and> \<not> db_closed db \<and> \<not> db_bufferClosed db \<and> \<not> db_ctxDone db \<and> \<not> db_workerDone db \<and>
     \<not> db_workerIdle db \<and> \<not> db_index_raced db \<and>
     (\<forall>m. db_txManager db = Some m \<longrightarrow> tx_store m = [])"

text \<open>What the worker keeps, by the shape of its step: it takes an operation, it executes what it has, or it
  only moves to its second \<^verbatim>\<open>select\<close>.\<close>

lemma handled_cases:
  assumes "worker_step L app db db'"
  obtains (take) op ops i where "db_writeBuffer db = op # ops"
      "db' = db\<lparr>db_writeBuffer := ops, db_pending := db_pending db @ [op], db_workerIdle := i\<rparr>" "handled db db' = []"
    | (run) ops taken db1 i d where "db_writeBuffer db = taken @ ops"
      "db1 = db\<lparr>db_writeBuffer := ops, db_pending := db_pending db @ taken\<rparr>"
      "handled db db' = db_pending db1" "db' = (processBatch L app db1)\<lparr>db_workerIdle := i, db_workerDone := d\<rparr>"
    | (move) "db' = db\<lparr>db_workerIdle := True\<rparr>" "handled db db' = []"
proof -
  have batch: thesis if "db' = (processBatch L app db)\<lparr>db_workerIdle := i, db_workerDone := d\<rparr>" for i d
    using that by (intro run [of "[]" "db_writeBuffer db" db d i]) (simp_all add: handled_def processBatch_fields)
  show thesis
    using assms
  proof cases
    case ws_recv
    show thesis
    proof (cases "db_writeBuffer db")
      case Nil
      show thesis
      proof (cases "db_bufferClosed db")
        case True
        with Nil ws_recv show thesis
          by (intro batch [of True False]) (simp add: worker_recv_def processBatch_fields)
      next
        case False
        with Nil ws_recv show thesis
          by (intro move) (simp_all add: worker_recv_def handled_def)
      qed
    next
      case (Cons op ops)
      let ?db1 = "db\<lparr>db_writeBuffer := ops, db_pending := db_pending db @ [op]\<rparr>"
      have recv: "db' = (if workerBatch \<le> Suc (length (db_pending db)) then processBatch L app ?db1 else ?db1)"
        using Cons ws_recv by (simp add: worker_recv_def Let_def)
      show thesis
      proof (cases "workerBatch \<le> Suc (length (db_pending db))")
        case True
        with recv Cons ws_recv show thesis
          by (intro run [of "[op]" ops ?db1 False False]) (simp_all add: handled_def processBatch_fields)
      next
        case False
        with recv Cons ws_recv show thesis
          by (intro take [of op ops False]) (simp_all add: handled_def)
      qed
    qed
  next
    case ws_idle
    show thesis
    proof (cases "db_writeBuffer db")
      case Nil
      with ws_idle show thesis
        by (intro batch [of True True]) (simp add: worker_idle_recv_def processBatch_fields)
    next
      case (Cons op ops)
      with ws_idle show thesis
        by (intro take [of op ops False]) (simp_all add: worker_idle_recv_def handled_def)
    qed
  next
    case ws_tick
    then show thesis
      by (intro batch [of False False]) (simp add: worker_tick_def processBatch_fields)
  next
    case ws_done
    then show thesis
      by (intro batch [of True True]) (simp add: worker_ctx_done_def processBatch_fields)
  qed
qed

section \<open>The invariant\<close>

definition quiet :: "'w db \<Rightarrow> 'w db \<Rightarrow> bool" where
  "quiet db db' \<longleftrightarrow>
     db_data db' = db_data db \<and> db_wal db' = db_wal db \<and> db_pending db' = db_pending db \<and>
     db_writeBuffer db' = db_writeBuffer db \<and> db_pendingOps db' = db_pendingOps db \<and> db_replies db' = db_replies db \<and>
     db_accepted db' = db_accepted db \<and> db_wal_failed db' = db_wal_failed db \<and> db_version db' = db_version db \<and>
     db_waiting db' = db_waiting db \<and> db_workerDone db' = db_workerDone db \<and> db_workerIdle db' = db_workerIdle db"

lemma quiet_on_metrics: "quiet db (on_metrics f db)"
  by (simp add: quiet_def on_metrics_def)

lemma quiet_step_quiet: "quiet_step L db db' \<Longrightarrow> quiet db db'"
proof (induction rule: quiet_step.induct)
  case (qs_read db elapsed t k)
  then show ?case
    by (auto simp: Read_def Let_def on_metrics_def quiet_def split: option.split)
next
  case (qs_index db t f seen)
  then show ?case
    by (auto simp: db_CreateIndex_def quiet_def split: option.split sum.split)
qed (auto simp: ReadBatch_def Write_done_def BeginTransaction_def flush_mark_def on_metrics_def Close_defs quiet_def
    split: option.split prod.split)

text \<open>The context is cancelled after the channel has been closed.\<close>

lemma quiet_step_ctx: "quiet_step L db db' \<Longrightarrow> (db_ctxDone db \<longrightarrow> db_bufferClosed db) \<Longrightarrow> db_ctxDone db' \<longrightarrow> db_bufferClosed db'"
proof (induction rule: quiet_step.induct)
  case (qs_read db elapsed t k)
  then show ?case
    by (auto simp: Read_def Let_def on_metrics_def split: option.split)
next
  case (qs_index db t f seen)
  then show ?case
    by (auto simp: db_CreateIndex_def split: option.split sum.split)
qed (auto simp: ReadBatch_def Write_done_def BeginTransaction_def flush_mark_def on_metrics_def Close_defs
    split: option.split prod.split)

definition sys_inv :: "world \<Rightarrow> event list \<Rightarrow> 'w db \<Rightarrow> bool" where
  "sys_inv W h db \<longleftrightarrow>
     db_accepted db = ops_of h @ db_pending db @ db_writeBuffer db \<and>
     map fst (db_replies db) = map op_ch (ops_of h) \<and>
     db_pendingOps db = of_nat (length (db_pending db) + length (db_writeBuffer db) + length (db_waiting db)) \<and>
     (\<not> db_wal_failed db \<longrightarrow> view (db_data db) = after h W \<and> db_replies db = answers h W)"

lemma sys_inv_quiet: "sys_inv W h db \<Longrightarrow> quiet db db' \<Longrightarrow> sys_inv W h db'"
  by (simp add: sys_inv_def quiet_def)

lemma sys_inv_announce: "sys_inv W h db \<Longrightarrow> sys_inv W h (announce op db)"
  by (simp add: sys_inv_def announce_def add_ac)

lemma sys_inv_enqueue:
  assumes "sys_inv W h db" "op \<in> set (db_waiting db)"
  shows "sys_inv W h (snd (enqueue choice op db))"
proof -
  obtain n where n: "length (db_waiting db) = Suc n" "length (remove1 op (db_waiting db)) = n"
    using assms(2) by (cases "length (db_waiting db)") (auto simp: length_remove1)
  then show ?thesis
    using assms(1) by (cases choice) (auto simp: sys_inv_def enqueue_def)
qed

lemma sys_inv_take:
  assumes "sys_inv W h db" "db_writeBuffer db = taken @ ops"
  shows "sys_inv W h (db\<lparr>db_writeBuffer := ops, db_pending := db_pending db @ taken\<rparr>)"
  using assms by (simp add: sys_inv_def add_ac)

lemma sys_inv_batch:
  assumes inv: "sys_inv W h db"
  shows "sys_inv W (h @ map EvOp (db_pending db)) (processBatch L app db)"
proof -
  let ?db = "processBatch L app db"
  have "view (db_data ?db) = after (h @ map EvOp (db_pending db)) W \<and>
      db_replies ?db = answers (h @ map EvOp (db_pending db)) W" if ok: "\<not> db_wal_failed ?db"
  proof -
    have "\<not> db_wal_failed db"
      using ok processBatch_failed [of db L app] by auto
    then have "view (db_data db) = after h W" "db_replies db = answers h W"
      using inv by (simp_all add: sys_inv_def)
    then show ?thesis
      using processBatch_spec [OF ok] by simp
  qed
  then show ?thesis
    using inv processBatch_replies [of L app db]
    by (simp add: sys_inv_def processBatch_fields)
qed

lemma sys_inv_upd [simp]:
  "sys_inv W h (db\<lparr>db_workerIdle := i\<rparr>) = sys_inv W h db"
  "sys_inv W h (db\<lparr>db_workerDone := d\<rparr>) = sys_inv W h db"
  "sys_inv W h (db\<lparr>db_workerIdle := i, db_workerDone := d\<rparr>) = sys_inv W h db"
  by (simp_all add: sys_inv_def)

lemma sys_inv_worker:
  assumes inv: "sys_inv W h db" and step: "worker_step L app db db'"
  shows "sys_inv W (h @ map EvOp (handled db db')) db'"
  using step
proof (cases rule: handled_cases)
  case (take op ops i)
  then show ?thesis
    using sys_inv_take [OF inv, of "[op]" ops] by (simp add: sys_inv_def)
next
  case (run ops taken db1 i d)
  have "sys_inv W h db1"
    using sys_inv_take [OF inv run(1)] run(2) by simp
  from sys_inv_batch [OF this, of L app] run(3,4) show ?thesis
    by simp
next
  case move
  then show ?thesis
    using inv by simp
qed

lemma CommitTransaction_cases:
  assumes "CommitTransaction a db = (r, db')" "db_txManager db = Some m"
  shows "(r \<noteq> None \<and> db_data db' = db_data db \<and> db_version db' = db_version db \<and> db_dirtyFlag db' = db_dirtyFlag db \<and>
       db_txManager db' = Some (snd (Commit a m))) \<or>
     (r = None \<and> db_data db' = apply_changes (tx_Changes (tx_store m ! a)) (db_data db) \<and>
       db_version db' = db_version db + 1 \<and> db_dirtyFlag db' \<and> db_txManager db' = Some (snd (Commit a m)) \<and>
       live (tx_store m ! a) \<and> db_version db = SnapshotVersion a (snd (Commit a m)))"
  using assms
  by (auto simp: CommitTransaction_def Commit_def Let_def live_def split: if_splits)

lemma sys_inv_commit:
  assumes inv: "sys_inv W h db" and c: "CommitTransaction a db = (r, db')" and m: "db_txManager db = Some m"
  shows "sys_inv W (h @ (if r = None then [EvCommit (tx_Changes (tx_store m ! a))] else [])) db'"
  using CommitTransaction_cases [OF c m] CommitTransaction_keeps [OF c] inv
  by (auto simp: sys_inv_def view_apply_changes)

lemma db_run_inv: "db_run L app bg db0 h db \<Longrightarrow> fresh db0 \<Longrightarrow> sys_inv (view (db_data db0)) h db"
proof (induction rule: db_run.induct)
  case dr_init
  then show ?case
    by (simp add: sys_inv_def fresh_def)
next
  case (dr_announce h db op)
  then show ?case
    by (simp add: sys_inv_announce)
next
  case (dr_send h db op choice)
  then show ?case
    by (simp add: sys_inv_enqueue)
next
  case (dr_worker h db db')
  then show ?case
    by (simp add: sys_inv_worker)
next
  case (dr_quiet h db db')
  then show ?case
    using sys_inv_quiet quiet_step_quiet by blast
next
  case (dr_commit h db m a r db')
  then show ?case
    using sys_inv_commit by blast
next
  case (dr_load h db d t b)
  then show ?case
    by (simp add: sys_inv_def)
next
  case (dr_log h db w w')
  then show ?case
    by (simp add: sys_inv_def)
qed

lemma db_run_ctx: "db_run L app bg db0 h db \<Longrightarrow> fresh db0 \<Longrightarrow> db_ctxDone db \<longrightarrow> db_bufferClosed db"
proof (induction rule: db_run.induct)
  case (dr_worker h db db')
  from dr_worker.hyps(2) have "db_ctxDone db' = db_ctxDone db" "db_bufferClosed db' = db_bufferClosed db"
    by (cases rule: handled_cases; simp add: processBatch_fields)+
  with dr_worker show ?case by simp
next
  case (dr_send h db op choice)
  then show ?case
    by (cases choice) (auto simp: enqueue_def)
next
  case (dr_quiet h db db')
  then show ?case
    using quiet_step_ctx by blast
next
  case (dr_commit h db m a r db')
  then show ?case
    using CommitTransaction_keeps [OF dr_commit.hyps(4)] by simp
qed (simp_all add: fresh_def announce_def)

end
