(* ===== verification/SystemProps.thy ===== *)
theory SystemProps
  imports System
begin

text \<open>
  Properties of every reachable state of the database: linearizability, consistent indexes, isolation
  of transactions, and the log.
\<close>

section \<open>Linearizability\<close>

definition sample_op :: "nat \<Rightarrow> string \<Rightarrow> goval \<Rightarrow> wop" where
  "sample_op ch ty v = mk_op ch ty ''t'' ''k'' v []"

definition sample_cfg_db :: db_config where
  "sample_cfg_db = default_config ''/backups''"

definition sample_db :: "manager option \<Rightarrow> unit db" where
  "sample_db im =
     \<lparr>db_data = [], db_storage = sample_engine, db_wal = None, db_indexMgr = im, db_txManager = Some tx_NewManager, db_backupMgr = None,
      db_metrics = None, db_config = sample_cfg_db, db_closed = False, db_ctxDone = False, db_waiting = [],
      db_writeBuffer = [], db_bufferClosed = False, db_pending = [], db_workerIdle = False, db_workerDone = False, db_dirtyFlag = False, db_lastLoaded = 0,
      db_lastSave = 0, db_pendingOps = 0, db_version = 0, db_replies = [], db_accepted = [],
      db_wal_failed = False, db_panicked = False, db_index_raced = False\<rparr>"

definition sample_app :: "unit appender" where
  "sample_app e w = (None, w)"

definition no_bg :: "'w \<Rightarrow> 'w \<Rightarrow> bool" where
  "no_bg w w' \<longleftrightarrow> False"

lemma fresh_sample [simp]: "fresh (sample_db im)"
  by (simp add: fresh_def sample_db_def tx_NewManager_def)

text \<open>A client announces an operation and the channel takes it.\<close>

definition submit :: "wop \<Rightarrow> 'w db \<Rightarrow> 'w db" where
  "submit op db = snd (enqueue Sent op (announce op db))"

lemma submit_run:
  assumes "db_run L app bg db0 h db" "can_choose Sent db"
  shows "db_run L app bg db0 h (submit op db)"
  unfolding submit_def
  by (rule dr_send [OF dr_announce [OF assms(1)]]) (use assms(2) in \<open>simp_all add: announce_def can_choose_def\<close>)

lemma submit_eq:
  "db_waiting db = [] \<Longrightarrow> \<not> db_bufferClosed db \<Longrightarrow> submit op db =
     db\<lparr>db_pendingOps := db_pendingOps db + 1, db_writeBuffer := db_writeBuffer db @ [op], db_accepted := db_accepted db @ [op]\<rparr>"
  by (simp add: submit_def announce_def enqueue_def)

text \<open>The worker takes an operation, finds the channel empty, and its ticker fires.\<close>

lemma recv_take:
  "\<not> db_workerIdle db \<Longrightarrow> db_writeBuffer db = op # ops \<Longrightarrow> Suc (length (db_pending db)) < workerBatch \<Longrightarrow>
   worker_recv L app db = db\<lparr>db_writeBuffer := ops, db_pending := db_pending db @ [op]\<rparr>"
  by (simp add: worker_recv_def)

lemma recv_idle:
  "\<not> db_workerIdle db \<Longrightarrow> db_writeBuffer db = [] \<Longrightarrow> \<not> db_bufferClosed db \<Longrightarrow>
   worker_recv L app db = db\<lparr>db_workerIdle := True\<rparr>"
  by (simp add: worker_recv_def)

lemma run_take:
  assumes "db_run L app bg db0 h db" "\<not> db_workerDone db" "\<not> db_workerIdle db" "db_writeBuffer db = op # ops"
    and "Suc (length (db_pending db)) < workerBatch"
  shows "db_run L app bg db0 h (db\<lparr>db_writeBuffer := ops, db_pending := db_pending db @ [op]\<rparr>)"
  using dr_worker [OF assms(1) ws_recv [OF assms(2,3)]] recv_take [OF assms(3-5), of L app] by (simp add: handled_def)

lemma run_idle:
  assumes "db_run L app bg db0 h db" "\<not> db_workerDone db" "\<not> db_workerIdle db" "db_writeBuffer db = []"
    and "\<not> db_bufferClosed db"
  shows "db_run L app bg db0 h (db\<lparr>db_workerIdle := True\<rparr>)"
  using dr_worker [OF assms(1) ws_recv [OF assms(2,3)]] recv_idle [OF assms(3-5), of L app] assms(4)
  by (simp add: handled_def split: if_splits)

lemma run_tick:
  assumes "db_run L app bg db0 h db" "\<not> db_workerDone db" "db_workerIdle db"
  shows "db_run L app bg db0 (h @ map EvOp (db_pending db)) (worker_tick L app db)"
proof -
  have "handled db (worker_tick L app db) = db_pending db"
    using assms(3) by (simp add: handled_def worker_tick_def processBatch_fields)
  with dr_worker [OF assms(1) ws_tick [OF assms(2,3)]] show ?thesis
    by metis
qed

text \<open>A small run: a table is created and a key written, by two clients, in one batch.\<close>

definition sample_queued :: "unit db" where
  "sample_queued = submit (sample_op 2 opWrite (VInt 7)) (submit (sample_op 1 opCreate VNil) (sample_db (Some Index.NewManager)))"

definition sample_taken :: "unit db" where
  "sample_taken = worker_recv sample_lib sample_app (worker_recv sample_lib sample_app (worker_recv sample_lib sample_app sample_queued))"

definition sample_done :: "unit db" where
  "sample_done = worker_tick sample_lib sample_app sample_taken"

definition sample_history :: "event list" where
  "sample_history = [EvOp (sample_op 1 opCreate VNil), EvOp (sample_op 2 opWrite (VInt 7))]"

lemma sample_queued_run: "db_run sample_lib sample_app no_bg (sample_db (Some Index.NewManager)) [] sample_queued"
  unfolding sample_queued_def
  by (intro submit_run dr_init)
    (simp_all add: submit_def announce_def enqueue_def sample_db_def can_choose_def sample_cfg_db_def default_config_def)

lemma sample_queued_eq:
  "sample_queued = (sample_db (Some Index.NewManager))\<lparr>
     db_writeBuffer := [sample_op 1 opCreate VNil, sample_op 2 opWrite (VInt 7)],
     db_accepted := [sample_op 1 opCreate VNil, sample_op 2 opWrite (VInt 7)], db_pendingOps := 2\<rparr>"
  by (simp add: sample_queued_def submit_eq sample_db_def)

lemma sample_taken_eq:
  "sample_taken = (sample_db (Some Index.NewManager))\<lparr>
     db_pending := [sample_op 1 opCreate VNil, sample_op 2 opWrite (VInt 7)],
     db_accepted := [sample_op 1 opCreate VNil, sample_op 2 opWrite (VInt 7)], db_pendingOps := 2, db_workerIdle := True\<rparr>"
proof -
  have start: "\<not> db_workerIdle sample_queued" "db_pending sample_queued = []" "\<not> db_bufferClosed sample_queued"
    "db_writeBuffer sample_queued = [sample_op 1 opCreate VNil, sample_op 2 opWrite (VInt 7)]"
    by (simp_all add: sample_queued_eq sample_db_def)
  show ?thesis
    unfolding sample_taken_def
    by (simp add: recv_take recv_idle start workerBatch_def) (simp add: sample_queued_eq sample_db_def)
qed

lemma sample_run: "db_run sample_lib sample_app no_bg (sample_db (Some Index.NewManager)) sample_history sample_done"
proof -
  let ?run = "db_run sample_lib sample_app no_bg (sample_db (Some Index.NewManager))"
  let ?ops = "[sample_op 1 opCreate VNil, sample_op 2 opWrite (VInt 7)]"
  let ?db = "sample_queued\<lparr>db_writeBuffer := [], db_pending := ?ops\<rparr>"
  have start: "\<not> db_workerDone sample_queued" "\<not> db_workerIdle sample_queued" "db_pending sample_queued = []"
    "db_writeBuffer sample_queued = ?ops" "\<not> db_bufferClosed sample_queued"
    by (simp_all add: sample_queued_eq sample_db_def)
  have "?run [] (sample_queued\<lparr>db_writeBuffer := [sample_op 2 opWrite (VInt 7)], db_pending := [sample_op 1 opCreate VNil]\<rparr>)"
    using run_take [OF sample_queued_run start(1,2,4)] start by (simp add: workerBatch_def)
  from run_take [OF this] start have "?run [] ?db"
    by (simp add: workerBatch_def)
  from run_idle [OF this] start have "?run [] (?db\<lparr>db_workerIdle := True\<rparr>)"
    by simp
  also have "?db\<lparr>db_workerIdle := True\<rparr> = sample_taken"
    by (simp add: sample_queued_eq sample_taken_eq sample_db_def)
  finally have taken: "?run [] sample_taken" .
  have "?run ([] @ map EvOp (db_pending sample_taken)) sample_done"
    unfolding sample_done_def
    by (rule run_tick [OF taken]) (simp_all add: sample_taken_eq sample_db_def)
  then show ?thesis
    by (simp add: sample_history_def sample_taken_eq)
qed

text \<open>Without a log nothing can fail to be appended.\<close>

lemma log_append_none: "db_wal db = None \<Longrightarrow> log_append app e undo db = db"
  by (simp add: log_append_def)

lemma batch_fold_none:
  "db_wal db = None \<Longrightarrow> db_wal_failed (fold (batch_record L app op) kvs db) = db_wal_failed db"
proof (induction kvs arbitrary: db)
  case (Cons kv kvs)
  then show ?case
    by (simp add: batch_record_def Let_def log_append_none index_update_def)
qed simp

lemma do_op_none: "db_wal db = None \<Longrightarrow> db_wal_failed (snd (snd (do_op L app op db))) = db_wal_failed db"
  by (auto simp: do_op_def do_create_def do_write_def do_delete_def do_batch_def Let_def index_update_def
      index_delete_def log_append_none batch_fold_none)

lemma run_ops_none: "db_wal db = None \<Longrightarrow> db_wal_failed (snd (run_ops L app ops (s, db))) = db_wal_failed db"
proof (induction ops arbitrary: s db)
  case (Cons op ops)
  then show ?case
    using Cons.IH [of "snd (process_op L app op (s, db))" "fst (process_op L app op (s, db))"]
    by (simp add: process_op_fields do_op_none)
qed simp

lemma processBatch_none: "db_wal db = None \<Longrightarrow> db_wal_failed (processBatch L app db) = db_wal_failed db"
  using run_ops_none [of db L app "db_pending db" False] by (simp add: processBatch_eq Let_def)

lemma sample_not_failed: "\<not> db_wal_failed sample_done"
proof -
  have "db_wal sample_taken = None" "\<not> db_wal_failed sample_taken"
    by (simp_all add: sample_taken_eq sample_db_def)
  then show ?thesis
    by (simp add: sample_done_def worker_tick_def processBatch_none)
qed

text \<open>Without an index no operation can end the process.\<close>

lemma index_update_empty: "db_indexMgr db = Some Index.NewManager \<Longrightarrow> index_update L t k u v db = db"
  by (simp add: index_update_def index_call_def GetIndexedFields_def Index.NewManager_def)

lemma index_delete_empty: "db_indexMgr db = Some Index.NewManager \<Longrightarrow> index_delete L t k u db = db"
  by (simp add: index_delete_def index_call_def GetIndexedFields_def Index.NewManager_def)

definition calm :: "'w db \<Rightarrow> bool" where
  "calm db \<longleftrightarrow> db_indexMgr db = Some Index.NewManager \<and> \<not> db_panicked db"

lemma calm_upd [simp]:
  "calm (db\<lparr>db_data := d\<rparr>) = calm db" "calm (on_metrics f db) = calm db" "calm (log_append app e undo db) = calm db"
  by (auto simp: calm_def on_metrics_def log_append_def split: option.split prod.split)

lemma calm_batch_fold: "calm db \<Longrightarrow> calm (fold (batch_record L app op) kvs db)"
proof (induction kvs arbitrary: db)
  case (Cons kv kvs)
  have "calm (batch_record L app op kv db)"
    using Cons.prems by (simp add: batch_record_def Let_def index_update_empty calm_def [of db])
  with Cons.IH show ?case
    by simp
qed simp

lemma calm_do_op: "calm db \<Longrightarrow> calm (snd (snd (do_op L app op db)))"
  using calm_batch_fold [of db L app op]
  by (auto simp: do_op_def do_create_def do_write_def do_delete_def do_batch_def Let_def index_update_empty index_delete_empty
      calm_def [of db])

lemma calm_run_ops: "calm db \<Longrightarrow> calm (snd (run_ops L app ops (s, db)))"
proof (induction ops arbitrary: s db)
  case (Cons op ops)
  have "calm (snd (process_op L app op (s, db)))"
    using calm_do_op [OF Cons.prems, of L app op] by (simp add: process_op_eq Let_def calm_def on_metrics_def)
  with Cons.IH [of "snd (process_op L app op (s, db))" "fst (process_op L app op (s, db))"] show ?case
    by simp
qed simp

lemma calm_batch: "calm db \<Longrightarrow> calm (processBatch L app db)"
  using calm_run_ops [of db L app "db_pending db" False] by (simp add: processBatch_eq Let_def calm_def)

lemma sample_not_panicked: "\<not> db_panicked sample_done"
proof -
  have "calm sample_taken" "db_workerIdle sample_taken"
    by (simp_all add: calm_def sample_taken_eq sample_db_def)
  then show ?thesis
    using calm_batch [of sample_taken sample_lib sample_app] by (simp add: sample_done_def worker_tick_def calm_def)
qed

text \<open>C1: linearizability. Whatever clients, worker, transactions, reloads and shutdown do, in any order, as
  long as the process has not panicked: the operations the channel accepted are those executed, then
  those in the worker's hands, then those in the channel, each executed exactly once and answered once,
  in order of acceptance; \<^verbatim>\<open>pendingOps\<close> counts the operations not yet answered, with those whose clients
  still wait for a place in the channel (modulo its width); and, as long as no append to the log
  failed, the data and every answer are those of executing the history one event after the other on the
  initial tables.\<close>
theorem database_linearizable:
  assumes "fresh db0" "db_run L app bg db0 h db" "\<not> db_panicked db"
  shows "db_accepted db = ops_of h @ db_pending db @ db_writeBuffer db \<and>
     map fst (db_replies db) = map op_ch (ops_of h) \<and>
     db_pendingOps db = of_nat (length (db_pending db @ db_writeBuffer db @ db_waiting db)) \<and>
     (\<not> db_wal_failed db \<longrightarrow>
        view (db_data db) = after h (view (db_data db0)) \<and> db_replies db = answers h (view (db_data db0)))"
  using db_run_inv [OF assms(2,1)] by (simp add: sys_inv_def add_ac)

theorem database_linearizable_witness:
  "view (db_data sample_done) = after sample_history (view (db_data (sample_db (Some Index.NewManager)))) \<and>
   db_replies sample_done = [(1, None), (2, None)]"
proof -
  have "answers sample_history (view (db_data (sample_db (Some Index.NewManager)))) = [(1, None), (2, None)]"
    by (simp add: sample_history_def sample_op_def mk_op_def spec_op_def sample_db_def view_def db_op_defs Let_def)
  then show ?thesis
    using database_linearizable [OF fresh_sample sample_run sample_not_panicked] sample_not_failed by simp
qed

section \<open>Indexes\<close>

definition rows_wf :: "tables \<Rightarrow> bool" where
  "rows_wf d \<longleftrightarrow> (\<forall>t r. gm_get d t = Some r \<longrightarrow> gm_wf r)"

lemma rows_wf_simps [simp]:
  "rows_wf d \<Longrightarrow> rows_wf (set_key t k v d)" "rows_wf d \<Longrightarrow> rows_wf (del_key t k d)"
  "rows_wf d \<Longrightarrow> rows_wf (gm_put t [] d)" "rows_wf d \<Longrightarrow> rows_wf (gm_del t d)"
  by (auto simp: rows_wf_def set_key_def del_key_def split: option.splits if_splits)

lemma log_append_rows_wf: "rows_wf (db_data db) \<Longrightarrow> (\<And>d. rows_wf d \<Longrightarrow> rows_wf (undo d)) \<Longrightarrow> rows_wf (db_data (log_append app e undo db))"
  by (auto simp: log_append_def split: option.split prod.split)

lemma batch_fold_rows_wf: "rows_wf (db_data db) \<Longrightarrow> rows_wf (db_data (fold (batch_record L app op) kvs db))"
proof (induction kvs arbitrary: db)
  case (Cons kv kvs)
  have "rows_wf (db_data (batch_record L app op kv db))"
    unfolding batch_record_def Let_def index_update_def
    using Cons.prems by (intro log_append_rows_wf) simp_all
  with Cons.IH show ?case by simp
qed simp

lemma do_op_rows_wf: "rows_wf (db_data db) \<Longrightarrow> rows_wf (db_data (snd (snd (do_op L app op db))))"
  by (auto simp: do_op_def do_create_def do_write_def do_delete_def do_batch_def Let_def index_update_def
      index_delete_def intro!: log_append_rows_wf batch_fold_rows_wf)

lemma run_ops_rows_wf: "rows_wf (db_data db) \<Longrightarrow> rows_wf (db_data (snd (run_ops L app ops (s, db))))"
proof (induction ops arbitrary: s db)
  case (Cons op ops)
  then show ?case
    using Cons.IH [of "snd (process_op L app op (s, db))" "fst (process_op L app op (s, db))"]
    by (simp add: process_op_fields do_op_rows_wf)
qed simp

lemma processBatch_rows_wf: "rows_wf (db_data db) \<Longrightarrow> rows_wf (db_data (processBatch L app db))"
  using run_ops_rows_wf [of db L app "db_pending db" False] by (simp add: processBatch_eq Let_def)

definition index_inv :: "golib \<Rightarrow> 'w db \<Rightarrow> bool" where
  "index_inv L db \<longleftrightarrow> rows_wf (db_data db) \<and>
     (\<not> db_wal_failed db \<and> \<not> db_panicked db \<and> \<not> db_index_raced db \<longrightarrow> db_index_ok L db)"

lemma index_inv_cong:
  "db_data db' = db_data db \<Longrightarrow> db_indexMgr db' = db_indexMgr db \<Longrightarrow> db_wal_failed db' = db_wal_failed db \<Longrightarrow>
   db_index_raced db' = db_index_raced db \<Longrightarrow> (db_panicked db \<longrightarrow> db_panicked db') \<Longrightarrow> index_inv L db \<Longrightarrow> index_inv L db'"
  using index_ok_cong [of db' db L] by (auto simp: index_inv_def)

lemma index_inv_batch:
  assumes "index_inv L db"
  shows "index_inv L (processBatch L app db)"
proof -
  have "db_index_ok L (processBatch L app db)"
    if "\<not> db_wal_failed (processBatch L app db)" "\<not> db_panicked (processBatch L app db)" "\<not> db_index_raced db"
  proof -
    have "\<not> db_wal_failed db" "\<not> db_panicked db"
      using that processBatch_failed [of db L app] run_ops_panicked [of db L app "db_pending db" False]
      by (auto simp: processBatch_panicked split: if_splits)
    with assms that processBatch_index show ?thesis
      by (auto simp: index_inv_def)
  qed
  with assms processBatch_rows_wf show ?thesis
    by (auto simp: index_inv_def processBatch_fields)
qed

lemma index_inv_worker:
  assumes "index_inv L db" "worker_step L app db db'"
  shows "index_inv L db'"
  using assms(2)
proof (cases rule: handled_cases)
  case (take op ops i)
  then show ?thesis
    using assms(1) by (auto intro: index_inv_cong)
next
  case (run ops taken db1 i d)
  have "index_inv L db1"
    using assms(1) run(2) by (auto intro: index_inv_cong)
  then have "index_inv L (processBatch L app db1)"
    by (rule index_inv_batch)
  with run(4) show ?thesis
    by (auto intro: index_inv_cong)
next
  case move
  with assms(1) show ?thesis
    by (auto intro: index_inv_cong)
qed

lemma index_inv_CreateIndex:
  assumes "index_inv L db"
  shows "index_inv L (snd (db_CreateIndex L t f seen db))"
proof (cases "db_CreateIndex L t f seen db")
  case (Pair r db')
  show ?thesis
  proof (cases r)
    case None
    have "db_data db' = db_data db" "db_wal_failed db' = db_wal_failed db" "db_panicked db' = db_panicked db"
      "db_index_raced db' \<longleftrightarrow> db_index_raced db \<or> mset seen \<noteq> mset (tableData t db)"
      using Pair None by (auto simp: db_CreateIndex_def split: option.splits if_splits sum.splits)
    with Pair None assms db_CreateIndex_ok [of L db t f seen db'] show ?thesis
      by (auto simp: index_inv_def rows_wf_def)
  next
    case (Some e)
    with Pair assms show ?thesis
      by (auto simp: db_CreateIndex_def intro: index_inv_cong split: option.splits if_splits sum.splits)
  qed
qed

lemma index_inv_quiet: "quiet_step L db db' \<Longrightarrow> index_inv L db \<Longrightarrow> index_inv L db'"
proof (induction rule: quiet_step.induct)
  case (qs_read db elapsed t k)
  then show ?case
    by (auto simp: Read_def Let_def on_metrics_def intro: index_inv_cong split: option.split)
next
  case (qs_index db t f seen)
  then show ?case
    by (simp add: index_inv_CreateIndex)
next
  case (qs_race db im p)
  then show ?case
    by (simp add: index_inv_def)
qed (auto simp: ReadBatch_def Write_done_def BeginTransaction_def flush_mark_def Close_defs on_metrics_def
    intro: index_inv_cong split: option.split prod.split)

text \<open>C5: as long as only operations of the worker change the data, no append to the log failed, the process
  has not panicked, and every index was built from the records its table had at that moment (its loop,
  which no lock protects, did not overlap a change of the table), every index describes its table in
  every state between two batches: a query there, and the reading of the records in any later state
  \<open>db'\<close>, yields for exactly the keys whose field had the given formatted value, one for each key, the
  records they have in \<open>db'\<close>, leaving out those deleted by then. In particular, with nothing in between
  it returns exactly the records with that value.\<close>
theorem indexes_stay_consistent:
  assumes "db_run L app bg db0 h db" "index_inv L db0" "\<forall>e \<in> set h. \<exists>op. e = EvOp op"
    and "\<not> db_wal_failed db" "\<not> db_panicked db" "\<not> db_index_raced db"
    and "db_indexMgr db = Some m" "dc_EnableIndexes (db_config db)" "find_index m t f \<noteq> None"
    and "formatIndexValue L v = Inr s"
  shows "\<exists>ks. distinct ks \<and> set ks = {k. \<exists>u. rows db t k = Some u \<and> index_key L f u = Inr (Some s)} \<and>
     QueryByIndex L t f v db db' = Inr (map (\<lambda>k. the (rows db' t k)) (filter (\<lambda>k. rows db' t k \<noteq> None) ks)) \<and>
     QueryByIndex L t f v db db = Inr (map (\<lambda>k. the (rows db t k)) ks)"
proof -
  have "index_inv L db"
    using assms(1,2,3)
  proof (induction rule: db_run.induct)
    case dr_init
    then show ?case by simp
  next
    case (dr_announce h db op)
    then show ?case
      by (auto simp: announce_def intro: index_inv_cong)
  next
    case (dr_send h db op choice)
    then show ?case
      by (cases choice) (auto simp: enqueue_def intro: index_inv_cong)
  next
    case (dr_worker h db db')
    then show ?case
      using index_inv_worker by fastforce
  next
    case (dr_quiet h db db')
    then show ?case
      using index_inv_quiet by blast
  next
    case (dr_commit h db m a r db')
    then have "r \<noteq> None" "index_inv L db"
      by (auto split: if_splits)
    with dr_commit.hyps CommitTransaction_cases [OF dr_commit.hyps(4,2)] CommitTransaction_keeps [OF dr_commit.hyps(4)]
    show ?case
      by (auto intro: index_inv_cong)
  next
    case (dr_load h db d t b)
    then show ?case by auto
  next
    case (dr_log h db w w')
    then show ?case
      by (auto intro: index_inv_cong)
  qed
  with assms(4-6) have ok: "db_index_ok L db"
    by (simp add: index_inv_def)
  obtain ks where ks: "distinct ks"
    "set ks = {k. \<exists>u. rows db t k = Some u \<and> index_key L f u = Inr (Some s)}"
    "\<And>db'. QueryByIndex L t f v db db' = Inr (map (\<lambda>k. the (rows db' t k)) (filter (\<lambda>k. rows db' t k \<noteq> None) ks))"
    using QueryByIndex_rows [OF ok assms(7-10)] by blast
  have "filter (\<lambda>k. rows db t k \<noteq> None) ks = ks"
    using ks(2) by (intro filter_True) auto
  with ks show ?thesis
    by (intro exI [of _ ks]) simp
qed

definition sample_people :: "unit db" where
  "sample_people = (sample_db (Some Index.NewManager))
     \<lparr>db_data := [(''t'', [(''k1'', sample_person ''Bob''), (''k2'', sample_person ''ann'')])]\<rparr>"

definition sample_indexed :: "unit db" where
  "sample_indexed = snd (db_CreateIndex sample_lib ''t'' ''name'' (tableData ''t'' sample_people) sample_people)"

lemma sample_indexed_eq:
  "sample_indexed = sample_people\<lparr>db_indexMgr :=
     Some \<lparr>m_indexes = [(''t'', [(''name'', [(''bob'', [''k1'']), (''ann'', [''k2''])])])]\<rparr>\<rparr>"
  using sample_created
  by (simp add: sample_indexed_def sample_people_def sample_db_def db_CreateIndex_def tableData_def sample_cfg_db_def
      default_config_def)

text \<open>The query is overtaken by the deletion of the record it has found.\<close>

theorem indexes_stay_consistent_witness:
  "QueryByIndex sample_lib ''t'' ''name'' (VString ''BOB'') sample_indexed sample_indexed = Inr [sample_person ''Bob''] \<and>
   QueryByIndex sample_lib ''t'' ''name'' (VString ''BOB'') sample_indexed
     (sample_indexed\<lparr>db_data := del_key ''t'' ''k1'' (db_data sample_indexed)\<rparr>) = Inr []"
proof -
  let ?m = "\<lparr>m_indexes = [(''t'', [(''name'', [(''bob'', [''k1'']), (''ann'', [''k2''])])])]\<rparr>"
  let ?db' = "sample_indexed\<lparr>db_data := del_key ''t'' ''k1'' (db_data sample_indexed)\<rparr>"
  have run: "db_run sample_lib sample_app no_bg sample_people [] sample_indexed"
    unfolding sample_indexed_def by (rule dr_quiet [OF dr_init qs_index])
  have inv: "index_inv sample_lib sample_people"
    by (simp add: index_inv_def db_index_ok_def sample_people_def sample_db_def rows_wf_def gm_wf_def)
  have m: "db_indexMgr sample_indexed = Some ?m"
    by (simp add: sample_indexed_eq)
  have facts: "\<not> db_wal_failed sample_indexed" "\<not> db_panicked sample_indexed" "\<not> db_index_raced sample_indexed"
    "dc_EnableIndexes (db_config sample_indexed)" "find_index ?m ''t'' ''name'' \<noteq> None"
    "formatIndexValue sample_lib (VString ''BOB'') = Inr ''bob''"
    by (simp_all add: sample_indexed_eq sample_people_def sample_db_def sample_cfg_db_def default_config_def
        find_index_def format_string sample_lower)
  obtain ks where ks: "distinct ks"
    "set ks = {k. \<exists>u. rows sample_indexed ''t'' k = Some u \<and> index_key sample_lib ''name'' u = Inr (Some ''bob'')}"
    "QueryByIndex sample_lib ''t'' ''name'' (VString ''BOB'') sample_indexed ?db' =
       Inr (map (\<lambda>k. the (rows ?db' ''t'' k)) (filter (\<lambda>k. rows ?db' ''t'' k \<noteq> None) ks))"
    "QueryByIndex sample_lib ''t'' ''name'' (VString ''BOB'') sample_indexed sample_indexed =
       Inr (map (\<lambda>k. the (rows sample_indexed ''t'' k)) ks)"
    using indexes_stay_consistent [OF run inv _ facts(1-3) m facts(4-6), of ?db'] by auto
  have row: "rows sample_indexed ''t'' k = (if k = ''k1'' then Some (sample_person ''Bob'')
      else if k = ''k2'' then Some (sample_person ''ann'') else None)" for k
    by (simp add: sample_indexed_eq sample_people_def rows_def row_key_def view_def)
  have set: "set ks = {''k1''}"
    unfolding ks(2) row by (auto simp: sample_key sample_lower)
  have "ks = [''k1'']"
    by (rule distinct_set_singleton [OF ks(1) set])
  moreover have "rows ?db' ''t'' ''k1'' = None"
    by (simp add: sample_indexed_eq sample_people_def rows_def row_key_def view_def del_key_def)
  ultimately show ?thesis
    using ks(3,4) row by simp
qed

text \<open>C23: a commit leaves the indexes alone: a record that was found under its field's value is still
  found under it after a transaction has replaced it, whatever the field says now.\<close>
theorem commit_leaves_indexes_stale:
  assumes "db_index_ok L db" "CommitTransaction a db = (None, db')"
    and "db_indexMgr db = Some m" "dc_EnableIndexes (db_config db)" "find_index m t f \<noteq> None"
    and "formatIndexValue L v = Inr s" "rows db t k = Some u" "index_key L f u = Inr (Some s)"
    and "rows db' t k = Some u'"
  shows "\<exists>us. QueryByIndex L t f v db' db' = Inr us \<and> u' \<in> set us"
proof -
  obtain i where i: "find_index m t f = Some i"
    using assms(5) by blast
  then have tr: "tracks L f i (rows db t)"
    using assms(1,3) by (simp add: db_index_ok_def indexes_ok_def)
  have k: "k \<in> set (bucket i s)"
    using tracksD(4) [OF tr] assms(7,8) by blast
  have q: "Query L t f v m = Inr (bucket i s)"
    using Query_tracked [OF i assms(6)] .
  obtain r where r: "gm_get (db_data db') t = Some r" "gm_get r k = Some u'"
    using assms(9) by (auto simp: rows_def row_key_def view_def split: option.splits)
  have "u' \<in> set (pick r ks)" if "k \<in> set ks" for ks
    using that r(2) by (induction ks) (auto split: option.split)
  with k r(1) q assms(3,4) CommitTransaction_keeps [OF assms(2)] show ?thesis
    by (auto simp: QueryByIndex_def)
qed

definition sample_commit :: "unit db" where
  "sample_commit = sample_indexed\<lparr>db_txManager := Some (snd (tx_Write 0 ''t'' ''k1'' (sample_person ''Zoe'')
     (snd (Begin 1 [] tx_NewManager))))\<rparr>"

lemma sample_commit_ok: "CommitTransaction 0 sample_commit = (None, snd (CommitTransaction 0 sample_commit))"
proof -
  have "fst (CommitTransaction 0 sample_commit) = None"
    by (simp add: sample_commit_def CommitTransaction_def Commit_def tx_Write_def Begin_def tx_NewManager_def
        set_change_def Let_def SnapshotVersion_def sample_indexed_eq sample_people_def sample_db_def)
  then show ?thesis
    by (simp add: prod_eq_iff)
qed

lemma sample_commit_data:
  "db_data (snd (CommitTransaction 0 sample_commit)) =
     [(''t'', [(''k1'', sample_person ''Zoe''), (''k2'', sample_person ''ann'')])]"
  by (simp add: sample_commit_def CommitTransaction_def Commit_def tx_Write_def Begin_def tx_NewManager_def
      set_change_def Let_def SnapshotVersion_def sample_indexed_eq sample_people_def sample_db_def
      apply_changes_def apply_record_def ensure_table_def set_key_def sample_person_def)

theorem commit_leaves_indexes_stale_witness:
  "\<exists>us. QueryByIndex sample_lib ''t'' ''name'' (VString ''BOB'')
       (snd (CommitTransaction 0 sample_commit)) (snd (CommitTransaction 0 sample_commit)) = Inr us \<and>
     sample_person ''Zoe'' \<in> set us"
proof (rule commit_leaves_indexes_stale)
  show "CommitTransaction 0 sample_commit = (None, snd (CommitTransaction 0 sample_commit))"
    by (rule sample_commit_ok)
  from sample_commit_data  show "rows (snd (CommitTransaction 0 sample_commit)) ''t'' ''k1'' = Some (sample_person ''Zoe'')"
    by (simp add: rows_def row_key_def view_def)
  show "rows sample_commit ''t'' ''k1'' = Some (sample_person ''Bob'')"
    by (simp add: rows_def row_key_def view_def sample_commit_def sample_indexed_eq sample_people_def)
  show "db_indexMgr sample_commit = Some \<lparr>m_indexes = [(''t'', [(''name'', [(''bob'', [''k1'']), (''ann'', [''k2''])])])]\<rparr>"
    by (simp add: sample_commit_def sample_indexed_eq)
  have "index_inv sample_lib sample_indexed"
    unfolding sample_indexed_def
    by (rule index_inv_CreateIndex)
      (simp add: index_inv_def db_index_ok_def sample_people_def sample_db_def rows_wf_def gm_wf_def)
  then have "db_index_ok sample_lib sample_indexed"
    by (simp add: index_inv_def sample_indexed_eq sample_people_def sample_db_def)
  then show "db_index_ok sample_lib sample_commit"
    using index_ok_cong [of sample_commit sample_indexed sample_lib] by (simp add: sample_commit_def)
  show "index_key sample_lib ''name'' (sample_person ''Bob'') = Inr (Some ''bob'')"
    by (simp add: sample_key sample_lower)
qed (simp_all add: sample_commit_def sample_indexed_eq sample_people_def sample_db_def sample_cfg_db_def
    default_config_def find_index_def format_string sample_lower)

section \<open>Isolation of transactions\<close>

text \<open>Every transaction remembers a version it has seen; if that is still the current one, its snapshot
  is a copy of the current data.\<close>

definition tx_seen :: "golib \<Rightarrow> nat \<Rightarrow> tables \<Rightarrow> transaction \<Rightarrow> bool" where
  "tx_seen L n d t \<longleftrightarrow> (\<exists>j \<le> n. tx_snapshotVersion t = of_nat j \<and> (j = n \<longrightarrow> tx_Snapshot t = copy_tables L d))"

definition tx_iso :: "golib \<Rightarrow> nat \<Rightarrow> 'w db \<Rightarrow> bool" where
  "tx_iso L n db \<longleftrightarrow> db_version db = of_nat n \<and>
     (\<forall>m. db_txManager db = Some m \<longrightarrow> (\<forall>t \<in> set (tx_store m). tx_seen L n (db_data db) t))"

lemma tx_seen_later: "tx_seen L n d t \<Longrightarrow> n < n' \<Longrightarrow> tx_seen L n' d' t"
  unfolding tx_seen_def by (metis le_less_trans less_imp_le less_irrefl)

lemma tx_seen_same:
  "tx_snapshotVersion t' = tx_snapshotVersion t \<Longrightarrow> tx_Snapshot t' = tx_Snapshot t \<Longrightarrow> tx_seen L n d t' = tx_seen L n d t"
  by (simp add: tx_seen_def)

lemma tx_iso_cong:
  "db_version db' = db_version db \<Longrightarrow> db_txManager db' = db_txManager db \<Longrightarrow> db_data db' = db_data db \<Longrightarrow>
   tx_iso L n db \<Longrightarrow> tx_iso L n db'"
  by (simp add: tx_iso_def)

lemma tx_iso_batch:
  assumes "tx_iso L n db"
  shows "\<exists>n' \<le> n + length (db_pending db). tx_iso L n' (processBatch L' app db)"
proof (cases "db_pending db = []")
  case True
  with assms show ?thesis
    by (auto simp: processBatch_def)
next
  case False
  then have len: "n + 1 \<le> n + length (db_pending db)"
    by (cases "db_pending db") auto
  from processBatch_version [of L' app db] show ?thesis
  proof (elim disjE conjE)
    assume "db_version (processBatch L' app db) = db_version db + 1"
    then have "tx_iso L (n + 1) (processBatch L' app db)"
      using assms tx_seen_later [of L n "db_data db" _ "n + 1"]
      by (auto simp: tx_iso_def processBatch_fields add.commute)
    with len show ?thesis by blast
  next
    assume "db_version (processBatch L' app db) = db_version db" "db_data (processBatch L' app db) = db_data db"
    then have "tx_iso L n (processBatch L' app db)"
      using assms by (auto simp: processBatch_fields intro: tx_iso_cong)
    then show ?thesis by (intro exI [of _ n]) simp
  qed
qed

lemma store_update_seen:
  assumes "\<forall>t \<in> set ts. tx_seen L n d t" "tx_seen L n d t'"
  shows "\<forall>t \<in> set (ts[a := t']). tx_seen L n d t"
  using assms set_update_subset_insert [of ts a t'] by auto

lemma tx_iso_tx:
  assumes "tx_iso L n db" "db_txManager db = Some m" "\<forall>t \<in> set (tx_store m'). tx_seen L n (db_data db) t"
  shows "tx_iso L n (db\<lparr>db_txManager := Some m'\<rparr>)"
  using assms by (simp add: tx_iso_def)

lemma tx_iso_begin:
  assumes "tx_iso L n db"
  shows "tx_iso L n (snd (BeginTransaction L now db))"
proof (cases "db_txManager db")
  case None
  then show ?thesis
    using assms by (simp add: BeginTransaction_def)
next
  case (Some m)
  let ?b = "Begin now (copy_tables L (db_data db)) m"
  have st: "tx_store (snd ?b) = tx_store m @ [last (tx_store (snd ?b))]"
    "fst ?b = length (tx_store m)" "tx_Snapshot (last (tx_store (snd ?b))) = copy_tables L (db_data db)"
    by (simp_all add: Begin_def Let_def)
  have "tx_store (SetSnapshotVersion (fst ?b) (db_version db) (snd ?b)) =
      tx_store m @ [(last (tx_store (snd ?b)))\<lparr>tx_snapshotVersion := db_version db\<rparr>]"
    by (simp add: SetSnapshotVersion_def Begin_def Let_def)
  then have "\<forall>t \<in> set (tx_store (SetSnapshotVersion (fst ?b) (db_version db) (snd ?b))). tx_seen L n (db_data db) t"
    using assms Some st(3) by (auto simp: tx_iso_def tx_seen_def)
  then show ?thesis
    using assms Some tx_iso_tx [OF assms Some]
    by (simp add: BeginTransaction_def createSnapshot_def split_beta)
qed

lemma tx_iso_quiet:
  assumes "quiet_step L db db'" "tx_iso L n db"
  shows "tx_iso L n db'"
  using assms
proof (induction rule: quiet_step.induct)
  case (qs_read db elapsed t k)
  then show ?case
    by (auto simp: Read_def Let_def on_metrics_def tx_iso_def split: option.split)
next
  case (qs_begin db now)
  then show ?case
    by (simp add: tx_iso_begin)
next
  case (qs_tx_write db m a t k v)
  have "tx_seen L n (db_data db) (set_change t k v (tx_store m ! a))"
    using qs_tx_write by (auto simp: tx_iso_def set_change_def Let_def tx_seen_def)
  with qs_tx_write store_update_seen [of "tx_store m" L n "db_data db"] show ?case
    by (intro tx_iso_tx) (auto simp: tx_iso_def tx_Write_def Let_def)
next
  case (qs_tx_delete db m a t k)
  have "tx_seen L n (db_data db) (set_change t k VNil (tx_store m ! a))"
    using qs_tx_delete by (auto simp: tx_iso_def set_change_def Let_def tx_seen_def)
  with qs_tx_delete store_update_seen [of "tx_store m" L n "db_data db"] show ?case
    by (intro tx_iso_tx) (auto simp: tx_iso_def tx_Delete_def Let_def)
qed (auto simp: ReadBatch_def Write_done_def db_CreateIndex_def flush_mark_def Close_defs on_metrics_def
    tx_iso_def split: option.split sum.split)

lemma tx_iso_commit:
  assumes "tx_iso L n db" "db_txManager db = Some m" "CommitTransaction a db = (r, db')" "a < length (tx_store m)"
  shows "tx_iso L (if r = None then n + 1 else n) db'"
proof -
  let ?t = "(tx_store m ! a)\<lparr>tx_Committed := True\<rparr>"
  have "tx_seen L n (db_data db) ?t"
    using assms(1,2,4) by (auto simp: tx_iso_def tx_seen_def)
  then have old: "\<forall>t \<in> set (tx_store (snd (Commit a m))). tx_seen L n (db_data db) t"
    using assms(1,2) store_update_seen [of "tx_store m" L n "db_data db" ?t a]
    by (auto simp: tx_iso_def Commit_def Let_def)
  have new: "\<forall>t \<in> set (tx_store (snd (Commit a m))). tx_seen L (n + 1) d t" for d
  proof
    fix t
    assume "t \<in> set (tx_store (snd (Commit a m)))"
    with old have "tx_seen L n (db_data db) t"
      by blast
    then show "tx_seen L (n + 1) d t"
      by (rule tx_seen_later) simp
  qed
  from CommitTransaction_cases [OF assms(3,2)] show ?thesis
    using assms(1) old new by (auto simp: tx_iso_def add.commute)
qed

lemma db_run_iso:
  assumes "db_run L app bg db0 h db" "fresh db0" "\<forall>d. EvLoad d \<notin> set h"
  shows "\<exists>n \<le> length h. tx_iso L n db"
  using assms
proof (induction rule: db_run.induct)
  case dr_init
  then show ?case
    by (auto simp: tx_iso_def fresh_def)
next
  case (dr_announce h db op)
  then show ?case
    by (simp add: announce_def tx_iso_def)
next
  case (dr_send h db op choice)
  then show ?case
    by (cases choice) (auto simp: enqueue_def tx_iso_def)
next
  case (dr_worker h db db')
  then obtain n where n: "n \<le> length h" "tx_iso L n db"
    by auto
  from dr_worker.hyps(2) show ?case
  proof (cases rule: handled_cases)
    case (take op ops i)
    with n show ?thesis
      by (intro exI [of _ n]) (auto intro: tx_iso_cong)
  next
    case (run ops taken db1 i d)
    have "tx_iso L n db1"
      using n(2) run(2) by (auto intro: tx_iso_cong)
    from tx_iso_batch [OF this, of L app] obtain n' where n': "n' \<le> n + length (db_pending db1)"
      "tx_iso L n' (processBatch L app db1)"
      by blast
    then have "tx_iso L n' db'"
      using run(4) by (auto intro: tx_iso_cong)
    with n' n(1) run(3) show ?thesis
      by (intro exI [of _ n']) simp
  next
    case move
    with n show ?thesis
      by (intro exI [of _ n]) (auto intro: tx_iso_cong)
  qed
next
  case (dr_quiet h db db')
  then show ?case
    using tx_iso_quiet by blast
next
  case (dr_commit h db m a r db')
  then obtain n where "n \<le> length h" "tx_iso L n db"
    by (auto split: if_splits)
  with tx_iso_commit [OF _ dr_commit.hyps(2,4,3), of L n] show ?case
    by (intro exI [of _ "if r = None then n + 1 else n"]) simp
next
  case (dr_load h db d t b)
  then show ?case by auto
next
  case (dr_log h db w w')
  then show ?case
    by (auto simp: tx_iso_def)
qed

text \<open>C8: transactions are serializable among themselves and with all other writes, except for imports and
  reloads of the file: when a commit succeeds, the data it is applied to are still those its
  snapshot is a copy of, so that the transaction takes effect as if it ran alone at that moment.\<close>
theorem commit_isolated:
  assumes "fresh db0" "db_run L app bg db0 h db" "\<forall>d. EvLoad d \<notin> set h" "length h < 2 ^ 64"
    and "db_txManager db = Some m" "a < length (tx_store m)" "CommitTransaction a db = (None, db')"
  shows "tx_Snapshot (tx_store m ! a) = copy_tables L (db_data db) \<and>
     view (db_data db') = commit_world (tx_Changes (tx_store m ! a)) (view (db_data db))"
proof -
  obtain n where n: "n \<le> length h" "tx_iso L n db"
    using db_run_iso [OF assms(2,1,3)] by blast
  then have "tx_seen L n (db_data db) (tx_store m ! a)"
    using assms(5,6) by (simp add: tx_iso_def)
  then obtain j where j: "j \<le> n" "tx_snapshotVersion (tx_store m ! a) = of_nat j"
    "j = n \<longrightarrow> tx_Snapshot (tx_store m ! a) = copy_tables L (db_data db)"
    by (auto simp: tx_seen_def)
  have c: "db_data db' = apply_changes (tx_Changes (tx_store m ! a)) (db_data db)"
    "live (tx_store m ! a)" "db_version db = SnapshotVersion a (snd (Commit a m))"
    using CommitTransaction_cases [OF assms(7,5)] by auto
  then have "(of_nat n :: 64 word) = of_nat j"
    using n(2) j(2) assms(6) by (auto simp: tx_iso_def SnapshotVersion_def Commit_def Let_def live_def)
  then have "unat (of_nat n :: 64 word) = unat (of_nat j :: 64 word)"
    by simp
  then have "n = j"
    using n(1) j(1) assms(4) by (simp add: unat_of_nat)
  with j(3) c(1) show ?thesis
    by (simp add: view_apply_changes)
qed

lemma sample_begin_run:
  "db_run sample_lib sample_app no_bg (sample_db None) [] (snd (BeginTransaction sample_lib 1 (sample_db None)))"
  by (rule dr_quiet [OF dr_init qs_begin])

theorem commit_isolated_witness:
  "\<exists>m. db_txManager (snd (BeginTransaction sample_lib 1 (sample_db None))) = Some m \<and>
     tx_Snapshot (tx_store m ! 0) = copy_tables sample_lib (db_data (sample_db None))"
proof -
  let ?db = "snd (BeginTransaction sample_lib 1 (sample_db None))"
  obtain m where m: "db_txManager ?db = Some m" "0 < length (tx_store m)" "fst (CommitTransaction 0 ?db) = None"
    "db_data ?db = db_data (sample_db None)"
    by (simp add: BeginTransaction_def sample_db_def createSnapshot_def Begin_def tx_NewManager_def Let_def
        SetSnapshotVersion_def CommitTransaction_def Commit_def SnapshotVersion_def sample_cfg_db_def default_config_def)
  then have "CommitTransaction 0 ?db = (None, snd (CommitTransaction 0 ?db))"
    by (simp add: prod_eq_iff)
  from commit_isolated [OF fresh_sample sample_begin_run _ _ m(1,2) this] m show ?thesis
    by auto
qed

end
