(* ===== verification/Restart.thy ===== *)
theory Restart
  imports SystemProps WalInv
begin

text \<open>
  The database on its own log: what the log holds in every reachable state, and what a restart
  recovers from the log file and a snapshot.
\<close>

section \<open>The log of a run\<close>

locale db_system = db_log app log eview
  for app :: "'w appender" and log :: "'w \<Rightarrow> 'v list" and eview :: "wal_entry \<Rightarrow> 'v" +
  fixes bg :: "'w \<Rightarrow> 'w \<Rightarrow> bool"
  assumes bg_log: "bg w w' \<Longrightarrow> log w' = log w"
begin

definition log_inv :: "'v list \<Rightarrow> world \<Rightarrow> event list \<Rightarrow> 'w db \<Rightarrow> bool" where
  "log_inv l W h db \<longleftrightarrow> db_wal db \<noteq> None \<and>
     (\<not> db_wal_failed db \<longrightarrow> view (db_data db) = after h W \<and> db_log db = l @ map eview (entries h W))"

lemma log_inv_cong:
  "db_wal db' = db_wal db \<Longrightarrow> db_wal_failed db' = db_wal_failed db \<Longrightarrow> db_data db' = db_data db \<Longrightarrow>
   log_inv l W h db \<Longrightarrow> log_inv l W h db'"
  by (simp add: log_inv_def db_log_def)

lemma log_inv_batch:
  assumes "log_inv l W h db"
  shows "log_inv l W (h @ map EvOp (db_pending db)) (processBatch L app db)"
proof -
  have "view (db_data (processBatch L app db)) = after (h @ map EvOp (db_pending db)) W \<and>
      db_log (processBatch L app db) = l @ map eview (entries (h @ map EvOp (db_pending db)) W)"
    if ok: "\<not> db_wal_failed (processBatch L app db)"
  proof -
    have "\<not> db_wal_failed db"
      using ok processBatch_failed [of db L app] by auto
    with assms have "view (db_data db) = after h W" "db_log db = l @ map eview (entries h W)" "db_wal db \<noteq> None"
      by (simp_all add: log_inv_def)
    with processBatch_spec(1) [OF ok] processBatch_log [OF ok] show ?thesis
      by simp
  qed
  with assms show ?thesis
    by (simp add: log_inv_def)
qed

lemma run_log_inv:
  "db_run L app bg db0 h db \<Longrightarrow> db_wal db0 \<noteq> None \<Longrightarrow> log_inv (db_log db0) (view (db_data db0)) h db"
proof (induction rule: db_run.induct)
  case dr_init
  then show ?case
    by (simp add: log_inv_def)
next
  case (dr_announce h db op)
  then show ?case
    by (auto simp: announce_def intro: log_inv_cong)
next
  case (dr_send h db op choice)
  then show ?case
    by (cases choice) (auto simp: enqueue_def intro: log_inv_cong)
next
  case (dr_worker h db db')
  from dr_worker.hyps(2) show ?case
  proof (cases rule: handled_cases)
    case (take op ops i)
    with dr_worker show ?thesis
      by (auto intro: log_inv_cong)
  next
    case (run ops taken db1 i d)
    have "log_inv (db_log db0) (view (db_data db0)) h db1"
      using dr_worker run(2) by (auto intro: log_inv_cong)
    from log_inv_batch [OF this, of L] run(3,4) show ?thesis
      by (auto intro: log_inv_cong)
  next
    case move
    with dr_worker show ?thesis
      by (auto intro: log_inv_cong)
  qed
next
  case (dr_quiet h db db')
  then show ?case
    using quiet_step_quiet [OF dr_quiet.hyps(2)] by (auto simp: quiet_def intro: log_inv_cong)
next
  case (dr_commit h db m a r db')
  with CommitTransaction_cases [OF dr_commit.hyps(4,2)] CommitTransaction_keeps [OF dr_commit.hyps(4)] show ?case
    by (auto simp: log_inv_def db_log_def view_apply_changes)
next
  case (dr_load h db d t b)
  then show ?case
    by (auto simp: log_inv_def db_log_def)
next
  case (dr_log h db w w')
  then show ?case
    using bg_log [of w w'] by (simp add: log_inv_def db_log_def)
qed

end

interpretation db_wal: db_system "Append_sched env clock during" accepted_log unstamped "wal_bg env"
  for env clock during
  by unfold_locales (rule accepted_log_bg)

section \<open>The log of the database is a log as \<open>WalInv\<close> describes it\<close>

lemma wal_run_steps: "wal_run env cfg content w \<Longrightarrow> wal_bg env w w' \<Longrightarrow> wal_run env cfg content w'"
  by (auto simp: wal_bg_def intro: run_step)

lemma wal_run_Append_sched: "wal_run env cfg content w \<Longrightarrow> wal_run env cfg content (snd (Append_sched env clock during e w))"
  unfolding Append_sched_def by (rule run_Append)

lemma db_run_wal:
  "db_run L (Append_sched env clock during) (wal_bg env) db0 h db \<Longrightarrow> wal_all (wal_run env cfg content) db0 \<Longrightarrow>
   wal_all (wal_run env cfg content) db"
proof (induction rule: db_run.induct)
  case dr_init
  then show ?case .
next
  case (dr_announce h db op)
  then show ?case
    by (simp add: announce_def wal_all_def)
next
  case (dr_send h db op choice)
  then show ?case
    by (cases choice) (simp_all add: enqueue_def wal_all_def)
next
  case (dr_worker h db db')
  from dr_worker.hyps(2) show ?case
  proof (cases rule: handled_cases)
    case (take op ops i)
    with dr_worker show ?thesis by (simp add: wal_all_def)
  next
    case (run ops taken db1 i d)
    have "wal_all (wal_run env cfg content) db1"
      using dr_worker run(2) by (simp add: wal_all_def)
    then have "wal_all (wal_run env cfg content) (processBatch L (Append_sched env clock during) db1)"
      using wal_run_Append_sched by (rule processBatch_all [rotated])
    with run(4) show ?thesis
      by (simp add: wal_all_def)
  next
    case move
    with dr_worker show ?thesis by (simp add: wal_all_def)
  qed
next
  case (dr_quiet h db db')
  then show ?case
    using quiet_step_quiet [OF dr_quiet.hyps(2)] wal_all_cong [of db' db] by (simp add: quiet_def)
next
  case (dr_commit h db m a r db')
  then show ?case
    using CommitTransaction_keeps [OF dr_commit.hyps(4)] wal_all_cong [of db' db] by simp
next
  case (dr_load h db d t b)
  then show ?case by (simp add: wal_all_def)
next
  case (dr_log h db w w')
  then show ?case
    using wal_run_steps by (simp add: wal_all_def)
qed

text \<open>The log is closed in order when \<^verbatim>\<open>Close\<close> has begun, the channel has been emptied, and no rotation has
  taken place or failed.\<close>

definition closed_in_order :: "wal \<Rightarrow> bool" where
  "closed_in_order w \<longleftrightarrow> w_closed w \<and> w_buffer w = [] \<and> w_open w \<and> w_rotated w = []"

section \<open>A restart\<close>

lemma replay1_unstamped [simp]: "replay1 (map_value f (unstamped e)) = replay1 (map_value f e)"
  by (simp add: replay1_def unstamped_def map_value_def fun_eq_iff)

lemma replay_unstamped: "replay (map (map_value f) (map unstamped es)) W = replay (map (map_value f) es) W"
  by (induction es arbitrary: W) simp_all

lemma recovered_scalar_list:
  "\<forall>e \<in> set es. wire_scalar (e_value e) \<Longrightarrow> concat (map (recovered_list L) es) = map (map_value wire_norm) es"
  by (induction es) (auto simp: recovered_list_def recovered_def wal_value_scalar map_value_def)

lemma unstamped_entries [simp]: "map unstamped (entries h W) = entries h W"
proof -
  have "map unstamped (op_entries op W) = op_entries op W" for op W
    by (auto simp: op_entries_def Let_def unstamped_def mk_entry_def)
  then have "map unstamped (event_entries e W) = event_entries e W" for e W
    by (cases e) simp_all
  then show ?thesis
    by (induction h arbitrary: W) simp_all
qed

lemma ops_only: "\<forall>e \<in> set h. \<exists>op. e = EvOp op \<Longrightarrow> h = map EvOp (ops_of h)"
  by (induction h rule: ops_of.induct) auto

text \<open>Durability across a restart. A database starts on a log that holds the entries \<open>old\<close>, which its data
  contain; clients and background tasks run in any interleaving, only the worker changes the data, and
  no append fails. If the log is closed in order, the file that its \<^verbatim>\<open>Close\<close> leaves holds \<open>old\<close> and
  everything accepted since, and a restart that loads any snapshot saved on the way and replays it
  finds exactly the tables and keys of the last state, each value in the normal form of the log or of
  the snapshot.\<close>

lemma closed_log_records:
  assumes "db_wal db0 = Some (wal_New cfg content)" "records env (wc_key cfg) content old"
    and "db_run L (Append_sched env clock during) (wal_bg env) db0 h db"
    and "db_wal db = Some w" "\<forall>e \<in> set (w_accepted w). encodable env (wc_key cfg) e"
    and "closed_in_order w"
  shows "records env (wc_key cfg) (w_file (wal_Close_finish env w)) (old @ w_accepted w)"
proof -
  have "wal_run env cfg content w"
    using db_run_wal [OF assms(3), of cfg content] run_New [of env cfg content] assms(1,4) by (simp add: wal_all_def)
  then have inv: "wal_inv env cfg old w"
    using assms(2,5,6) by (intro wal_run_inv) (simp_all add: closed_in_order_def)
  obtain u where u: "flushBatch env w = (None, u)" "wal_inv env cfg old u" "w_pending u = []"
    "w_buffer u = w_buffer w" "w_accepted u = w_accepted w" "w_rotated u = w_rotated w"
    using flush_inv [OF inv] by metis
  then have "records env (wc_key cfg) (stream u) (old @ w_accepted w)"
    using assms(6) by (auto simp: wal_inv_def closed_in_order_def)
  moreover have "stream u = w_file (wal_Close_finish env w)"
    using u(1,6) flush_then_sync(1) [OF u(2)] assms(6) by (simp add: wal_Close_finish_def stream_def closed_in_order_def)
  ultimately show ?thesis
    by simp
qed

lemma records_read_scalars:
  assumes "proto_faithful (we_pb env)" "records env key bs es" "\<forall>e \<in> set es. wire_scalar (e_value e)"
  shows "ReadAll (we_lib env) (we_pb env) key bs = map (map_value wire_norm) es"
  using records_read [OF assms(1,2)] assms(3) by (simp add: recovered_scalar_list)

lemma wire_norm_idem [simp]: "wire_norm (wire_norm v) = wire_norm v"
  by (cases v) simp_all

lemma wire_norm_old: "map (map_value wire_norm) (map (map_value wire_norm) es) = map (map_value wire_norm) es"
  by (induction es) (simp_all add: map_value_def)

lemma restart_restores:
  assumes "fresh db0" "db_wal db0 = Some (wal_New cfg content)"
    and "records env (wc_key cfg) content old" "\<forall>e \<in> set old. wire_scalar (e_value e)"
    and "view (db_data db0) = replay (map (map_value wire_norm) old) V"
    and "db_run L (Append_sched env clock during) (wal_bg env) db0 h1 db1"
    and "db_run L (Append_sched env clock during) (wal_bg env) db0 (h1 @ h2) db"
    and "\<forall>e \<in> set (h1 @ h2). \<exists>op. e = EvOp op" "\<not> db_wal_failed db1" "\<not> db_wal_failed db"
    and "db_wal db = Some w" "\<forall>e \<in> set (w_accepted w). encodable env (wc_key cfg) e \<and> wire_scalar (e_value e)"
    and "proto_faithful (we_pb env)" "closed_in_order w"
    and "view d = norm_view nrm (view (db_data db1))"
  shows "same_up_to wire_norm nrm (view (db_data db))
    (view (recoverFromWAL (ReadAll (we_lib env) (we_pb env) (wc_key cfg) (w_file (wal_Close_finish env w))) d))"
proof -
  let ?W = "view (db_data db0)" and ?read = "ReadAll (we_lib env) (we_pb env) (wc_key cfg) (w_file (wal_Close_finish env w))"
    and ?old = "map (map_value wire_norm) old" and ?o1 = "ops_of h1" and ?o2 = "ops_of h2"
  have "records env (wc_key cfg) (w_file (wal_Close_finish env w)) (old @ w_accepted w)"
    using assms(12) by (intro closed_log_records [OF assms(2,3,7,11) _ assms(14)]) blast
  then have read: "?read = ?old @ map (map_value wire_norm) (w_accepted w)"
    using records_read_scalars [OF assms(13)] assms(4,12) by (simp add: ball_Un)
  have "db_wal.log_inv (db_wal.db_log db0) ?W (h1 @ h2) db"
    using db_wal.run_log_inv [OF assms(7)] assms(2) by simp
  then have log: "map unstamped (w_accepted w) = entries (h1 @ h2) ?W" "view (db_data db) = after (h1 @ h2) ?W"
    using assms(10,11,2) by (simp_all add: db_wal.log_inv_def db_wal.db_log_def accepted_log_def wal_New_def)
  have "h1 = map EvOp ?o1" "h1 @ h2 = map EvOp (?o1 @ ?o2)"
    using ops_only [of h1] ops_only [of "h1 @ h2"] assms(8) by auto
  then have h: "after h1 ?W = snd (spec_ops ?o1 ?W)" "after (h1 @ h2) ?W = snd (spec_ops (?o1 @ ?o2) ?W)"
    "entries (h1 @ h2) ?W = ops_entries (?o1 @ ?o2) ?W"
    by (metis after_ops, metis after_ops, metis entries_ops)
  have "view (db_data db1) = snd (spec_ops ?o1 ?W)"
    using db_run_inv [OF assms(6,1)] assms(9) h(1) by (simp add: sys_inv_def)
  then have "view d = norm_view nrm (snd (spec_ops ?o1 (replay ?old V)))"
    using assms(5,15) by simp
  from replay_ops_over_snapshot [OF this wire_norm_old, of ?o2] show ?thesis
    using replay_unstamped [of wire_norm "w_accepted w" "replay ?old (view d)"]
    by (simp add: h [unfolded assms(5)] log [unfolded assms(5)] read view_recoverFromWAL
        del: entries_append after_simps(3))
qed

end
