(* ===== verification/Lifecycle.thy ===== *)
theory Lifecycle
  imports Restart
begin

text \<open>
  The whole life of a database: \<^verbatim>\<open>InitWithConfig\<close> on an empty log, a run, a shutdown, and
  \<^verbatim>\<open>InitWithConfig\<close> again on the files that were left.
\<close>

section \<open>What a start yields\<close>

lemma loadWithRetry_ok:
  assumes "loadWithRetry L ios db fs = (None, db')"
  shows "\<exists>d t. Load L True (db_storage db) fs = Inr (d, t) \<and> db' = db\<lparr>db_data := d, db_lastLoaded := t\<rparr>"
  using assms
proof (induction ios)
  case (Cons io ios)
  show ?case
  proof (cases "Load L io (db_storage db) fs")
    case (Inl e)
    with Cons show ?thesis by (simp add: load_def)
  next
    case (Inr p)
    moreover from Inr have "Load L True (db_storage db) fs = Inr p"
      by (cases io) (auto simp: Load_def split: option.splits)
    ultimately show ?thesis
      using Cons.prems by (cases p) (simp add: load_def)
  qed
qed simp

lemma loadWithRetry_succeeds:
  assumes "True \<in> set ios" "Load L True (db_storage db) fs = Inr (d, t)"
  shows "loadWithRetry L ios db fs = (None, db\<lparr>db_data := d, db_lastLoaded := t\<rparr>)"
  using assms(1)
proof (induction ios)
  case (Cons io ios)
  show ?case
  proof (cases "Load L io (db_storage db) fs")
    case (Inl e)
    with Cons assms(2) show ?thesis by (cases io) (auto simp: load_def)
  next
    case (Inr p)
    with assms(2) have "p = (d, t)"
      by (cases io) (auto simp: Load_def split: option.splits)
    with Inr show ?thesis by (simp add: load_def)
  qed
qed simp

definition start_engine :: "string \<Rightarrow> db_config \<Rightarrow> engine" where
  "start_engine path c = storage_New path (dc_EncryptionKey c) (dc_EnableCompression c) (nat (dc_MaxRetries c))"

lemma InitWithConfig_ok:
  assumes "InitWithConfig penv L P cfg ios (Some content) now fs = Some (Inr db)"
    and "effective_config penv cfg = Some (Inr c)" "dc_EnableWAL c"
  obtains path home d t where "GetStateDBPath penv (dc_DirPath c) = Some path" "GetHomeSubDir penv [] (dc_DirPath c) = Some home"
    "Load L True (start_engine path c) fs = Inr (d, t)" "db_storage db = start_engine path c" "fresh db"
    "db_wal db = Some (wal_New (wal_cfg_of c) content)"
    "db_data db = recoverFromWAL (ReadAll L P (dc_EncryptionKey c) content) d"
proof -
  obtain path where path: "GetStateDBPath penv (dc_DirPath c) = Some path"
    using assms(1,2) by (cases "GetStateDBPath penv (dc_DirPath c)") (auto simp: InitWithConfig_def)
  obtain r db1 where r: "loadWithRetry L (take (nat (dc_MaxRetries c)) ios) (initial_db c (start_engine path c)) fs = (r, db1)"
    by fastforce
  have "r = None"
    using assms(1,2) path r by (cases r) (simp_all add: InitWithConfig_def start_engine_def Let_def)
  with r obtain d t where d: "Load L True (start_engine path c) fs = Inr (d, t)"
    "db1 = (initial_db c (start_engine path c))\<lparr>db_data := d, db_lastLoaded := t\<rparr>"
    using loadWithRetry_ok by (fastforce simp: initial_db_def)
  obtain home where home: "GetHomeSubDir penv [] (dc_DirPath c) = Some home"
    using assms path r \<open>r = None\<close>
    by (cases "GetHomeSubDir penv [] (dc_DirPath c)") (auto simp: InitWithConfig_def start_engine_def Let_def)
  have "db_storage db = start_engine path c \<and> fresh db \<and> db_wal db = Some (wal_New (wal_cfg_of c) content) \<and>
      db_data db = recoverFromWAL (ReadAll L P (dc_EncryptionKey c) content) d"
    using assms path r \<open>r = None\<close> home d(2)
    by (auto simp: InitWithConfig_def start_engine_def Let_def initial_db_def fresh_def tx_NewManager_def split: if_splits)
  with that path home d(1) show thesis
    by blast
qed

lemma InitWithConfig_starts:
  assumes "effective_config penv cfg = Some (Inr c)" "dc_EnableWAL c"
    and "GetStateDBPath penv (dc_DirPath c) = Some path" "GetHomeSubDir penv [] (dc_DirPath c) = Some home"
    and "True \<in> set (take (nat (dc_MaxRetries c)) ios)" "Load L True (start_engine path c) fs = Inr (d, t)"
  shows "\<exists>db. InitWithConfig penv L P cfg ios (Some content) now fs = Some (Inr db)"
proof -
  have "loadWithRetry L (take (nat (dc_MaxRetries c)) ios) (initial_db c (start_engine path c)) fs =
      (None, (initial_db c (start_engine path c))\<lparr>db_data := d, db_lastLoaded := t\<rparr>)"
    using assms(5,6) by (intro loadWithRetry_succeeds) (simp_all add: initial_db_def)
  with assms(1-4) show ?thesis
    by (simp add: InitWithConfig_def start_engine_def Let_def)
qed

section \<open>From one start to the next\<close>

text \<open>
  The log that earlier lives of the database have left. In each of them it was started, ran with any
  mixture of operations, transactions, imports and reloads, logged only scalar values that can be
  encoded, never rotated its log, and closed it with an empty channel. The nonces and the time differ
  from life to life.
\<close>

inductive lives :: "golib \<Rightarrow> pblib \<Rightarrow> path_env \<Rightarrow> db_config option \<Rightarrow> db_config \<Rightarrow> bytes \<Rightarrow> wal_entry list \<Rightarrow> bool"
  for L P penv cfg c
where
  lives_none: "lives L P penv cfg c [] []"
| lives_next: "lives L P penv cfg c content old \<Longrightarrow> we_lib env = L \<Longrightarrow> we_pb env = P \<Longrightarrow>
    InitWithConfig penv L P cfg ios (Some content) now fs = Some (Inr db0) \<Longrightarrow>
    db_run L (Append_sched env clock during) (wal_bg env) db0 h db \<Longrightarrow> db_wal db = Some w \<Longrightarrow>
    \<forall>e \<in> set (w_accepted w). encodable env (dc_EncryptionKey c) e \<and> wire_scalar (e_value e) \<Longrightarrow>
    closed_in_order w \<Longrightarrow>
    lives L P penv cfg c (w_file (wal_Close_finish env w)) (old @ w_accepted w)"

lemma records_cong:
  "we_lib env = we_lib env' \<Longrightarrow> we_pb env = we_pb env' \<Longrightarrow> records env key bs es = records env' key bs es"
  by (simp add: records_def)

lemma wal_cfg_key [simp]: "wc_key (wal_cfg_of c) = dc_EncryptionKey c"
  by (simp add: wal_cfg_of_def)

lemma lives_records:
  assumes "lives L P penv cfg c content old" "effective_config penv cfg = Some (Inr c)" "dc_EnableWAL c"
    and "we_lib env = L" "we_pb env = P"
  shows "records env (dc_EncryptionKey c) content old \<and> (\<forall>e \<in> set old. wire_scalar (e_value e))"
  using assms(1,4,5)
proof (induction arbitrary: env rule: lives.induct)
  case lives_none
  then show ?case
    using records_Nil by simp
next
  case (lives_next content old env' ios now fs db0 clock during h db w env)
  have wal: "db_wal db0 = Some (wal_New (wal_cfg_of c) content)"
    using InitWithConfig_ok [OF lives_next.hyps(4) assms(2,3)] by metis
  have "records env' (wc_key (wal_cfg_of c)) (w_file (wal_Close_finish env' w)) (old @ w_accepted w)"
    using lives_next.IH [of env'] lives_next.hyps
    by (intro closed_log_records [OF wal _ lives_next.hyps(5,6) _ lives_next.hyps(8)]) auto
  moreover have "\<forall>e \<in> set old. wire_scalar (e_value e)"
    using lives_next.IH [of env'] lives_next.hyps by simp
  ultimately show ?case
    using lives_next records_cong [of env env'] by auto
qed

text \<open>C2: durability over any number of lives of the database, as long as its log is never rotated. It is
  started on the log its earlier lives have left, each of which closed it in order; clients and
  background tasks run in any interleaving, only the worker changes the data (no transaction commits,
  nothing is imported or reloaded), no append fails, every value logged is nil, a boolean, an integer, a
  string or bytes (no float, map, slice, array, pointer or struct), its record can be encoded (protobuf
  accepts it, it is not too large, and the random source yields nonces), and in the end the log is
  closed in order: \<^verbatim>\<open>Close\<close> has begun, the channel of the log has been emptied, no rotation has
  taken place and none has failed. Then on the file that \<^verbatim>\<open>Close\<close> leaves the next start succeeds, whatever
  snapshot of the run the state file holds, yields a database ready for work, and has exactly the
  tables and keys of the last state, each value in the normal form of the log or of the snapshot.\<close>
theorem reopen_restores_everything:
  assumes "lives L P penv cfg c content old"
    and "effective_config penv cfg = Some (Inr c)" "dc_EnableWAL c"
    and "InitWithConfig penv L P cfg ios1 (Some content) now1 fs1 = Some (Inr db0)"
    and "we_lib env = L" "we_pb env = P" "proto_faithful P"
    and "db_run L (Append_sched env clock during) (wal_bg env) db0 h1 db1"
    and "db_run L (Append_sched env clock during) (wal_bg env) db0 (h1 @ h2) db"
    and "\<forall>e \<in> set (h1 @ h2). \<exists>op. e = EvOp op" "\<not> db_wal_failed db1" "\<not> db_wal_failed db"
    and "db_wal db = Some w" "closed_in_order w"
    and "\<forall>e \<in> set (w_accepted w). encodable env (dc_EncryptionKey c) e \<and> wire_scalar (e_value e)"
    and "Load L True (db_storage db0) fs2 = Inr (d, t)" "view d = norm_view nrm (view (db_data db1))"
    and "True \<in> set (take (nat (dc_MaxRetries c)) ios2)"
  shows "\<exists>db'. InitWithConfig penv L P cfg ios2 (Some (w_file (wal_Close_finish env w))) now2 fs2 = Some (Inr db') \<and>
     fresh db' \<and> same_up_to wire_norm nrm (view (db_data db)) (view (db_data db'))"
proof -
  let ?file = "w_file (wal_Close_finish env w)"
  have rec: "records env (wc_key (wal_cfg_of c)) content old" "\<forall>e \<in> set old. wire_scalar (e_value e)"
    using lives_records [OF assms(1-3,5,6)] by simp_all
  obtain path home d0 t0 where s: "GetStateDBPath penv (dc_DirPath c) = Some path"
    "GetHomeSubDir penv [] (dc_DirPath c) = Some home" "db_storage db0 = start_engine path c" "fresh db0"
    "db_wal db0 = Some (wal_New (wal_cfg_of c) content)"
    "db_data db0 = recoverFromWAL (ReadAll L P (dc_EncryptionKey c) content) d0"
    using InitWithConfig_ok [OF assms(4,2,3)] by metis
  have "view (db_data db0) = replay (map (map_value wire_norm) old) (view d0)"
    using records_read_scalars [of env "dc_EncryptionKey c" content old] rec assms(5-7) s(6) by (simp add: view_recoverFromWAL)
  from restart_restores [OF s(4,5) rec this assms(8-13)] assms(5-7,14,15,17)
  have same: "same_up_to wire_norm nrm (view (db_data db)) (view (recoverFromWAL (ReadAll L P (dc_EncryptionKey c) ?file) d))"
    by simp
  obtain db' where db': "InitWithConfig penv L P cfg ios2 (Some ?file) now2 fs2 = Some (Inr db')"
    using InitWithConfig_starts [OF assms(2,3) s(1,2) assms(18)] assms(16) s(3) by metis
  then have "fresh db'" "db_data db' = recoverFromWAL (ReadAll L P (dc_EncryptionKey c) ?file) d"
    using InitWithConfig_ok [OF db' assms(2,3)] s(1,3) assms(16) by (metis, metis option.inject sum.inject(2) prod.inject)
  with same db' show ?thesis
    by auto
qed

text \<open>A run of one client on a real log: the table is created, the log's writer takes the entry, and the log is
  closed.\<close>

definition restart_env :: wal_env where
  "restart_env = \<lparr>we_lib = sample_lib,
     we_pb = sample_pb [\<lparr>pb_op = 1, pb_table = ''t'', pb_key = [], pb_value = [], pb_txid = [], pb_time = 1\<rparr>],
     we_rnd = \<lambda>_. None\<rparr>"

definition restart_penv :: path_env where
  "restart_penv = \<lparr>pe_home = Some ''/h'', pe_mkdir = (\<lambda>_. True)\<rparr>"

definition restart_config :: db_config where
  "restart_config = (default_config ''/b'')\<lparr>dc_DirPath := ''/d''\<rparr>"

abbreviation "restart_cfg \<equiv> wal_cfg_of restart_config"

definition restart_db0 :: "wal db" where
  "restart_db0 = (initial_db restart_config (start_engine ''/d/state/state.rdb'' restart_config))
     \<lparr>db_wal := Some (wal_New restart_cfg []), db_indexMgr := Some Index.NewManager, db_txManager := Some tx_NewManager,
       db_backupMgr := Some (backup_NewManager ''/b'' 10), db_metrics := Some (NewCollector 0)\<rparr>"

lemma restart_paths:
  "effective_config restart_penv (Some restart_config) = Some (Inr restart_config)"
  "GetStateDBPath restart_penv ''/d'' = Some ''/d/state/state.rdb''"
  "GetHomeSubDir restart_penv [] ''/d'' = Some ''/d''"
  by code_simp+

lemma restart_start:
  "InitWithConfig restart_penv sample_lib (we_pb restart_env) (Some restart_config) [True] (Some []) 0 (\<lambda>_. None) =
     Some (Inr restart_db0)"
proof -
  have "dc_DirPath restart_config = ''/d''" "dc_EnableWAL restart_config" "dc_MaxRetries restart_config = 3"
    "dc_EnableIndexes restart_config" "dc_EnableTransactions restart_config" "dc_EnableBackup restart_config"
    "dc_MetricsEnabled restart_config" "dc_BackupDir restart_config = ''/b''"
    by (simp_all add: restart_config_def default_config_def)
  then show ?thesis
    by (simp add: InitWithConfig_def restart_paths Let_def restart_db0_def start_engine_def load_def Load_def initial_db_def
        recoverFromWAL_def)
qed

abbreviation "restart_app \<equiv> Append_sched restart_env (\<lambda>_. 1) (\<lambda>_. [])"

definition restart_taken :: "wal db" where
  "restart_taken = restart_db0\<lparr>db_pending := [sample_op 1 opCreate VNil], db_accepted := [sample_op 1 opCreate VNil],
     db_pendingOps := 1, db_workerIdle := True\<rparr>"

definition restart_done :: "wal db" where
  "restart_done = worker_tick sample_lib restart_app restart_taken"

definition restart_wal :: wal where
  "restart_wal = (wal_New restart_cfg [])\<lparr>w_buffer := [(mk_entry OpCreate ''t'' [] VNil)\<lparr>e_time := 1\<rparr>],
     w_accepted := [(mk_entry OpCreate ''t'' [] VNil)\<lparr>e_time := 1\<rparr>]\<rparr>"

definition restart_closed :: wal where
  "restart_closed = wal_Close_begin (batch_recv restart_env restart_wal)"

definition restart_end :: "wal db" where
  "restart_end = restart_done\<lparr>db_wal := Some restart_closed\<rparr>"

lemma restart_frame:
  "entry_frame sample_lib (we_pb restart_env) zero_key None ((mk_entry OpCreate ''t'' [] VNil)\<lparr>e_time := 1\<rparr>) = Inr (frame [])"
  by (simp add: entry_frame_def entry_payload_def to_pb_def mk_entry_def sample_pb_def restart_env_def IsZero_def
      op_defs Let_def)

lemma restart_done_facts:
  "db_wal restart_done = Some restart_wal" "db_wal_failed restart_done = False" "db_data restart_done = [(''t'', [])]"
  by (simp_all add: restart_done_def worker_tick_def restart_taken_def restart_db0_def initial_db_def processBatch_def
      process_op_def do_op_def do_create_def sample_op_def mk_op_def log_append_def Append_sched_def Append_def
      Append_send_def wal_New_def bufferCap_def stamp_def mk_entry_def Let_def on_metrics_def restart_wal_def)

lemma restart_run:
  "db_run sample_lib restart_app (wal_bg restart_env) restart_db0 ([] @ [EvOp (sample_op 1 opCreate VNil)]) restart_end"
proof -
  let ?run = "db_run sample_lib restart_app (wal_bg restart_env) restart_db0"
  let ?op = "sample_op 1 opCreate VNil"
  let ?db = "restart_db0\<lparr>db_pendingOps := 1, db_writeBuffer := [?op], db_accepted := [?op]\<rparr>"
  have "submit ?op restart_db0 = ?db"
    by (simp add: submit_eq restart_db0_def initial_db_def)
  moreover have "?run [] (submit ?op restart_db0)"
    by (rule submit_run [OF dr_init])
      (simp add: restart_db0_def initial_db_def can_choose_def restart_config_def default_config_def)
  ultimately have "?run [] ?db"
    by simp
  then have "?run [] (?db\<lparr>db_writeBuffer := [], db_pending := db_pending ?db @ [?op]\<rparr>)"
    by (rule run_take) (simp_all add: restart_db0_def initial_db_def workerBatch_def)
  then have "?run [] (?db\<lparr>db_writeBuffer := [], db_pending := db_pending ?db @ [?op]\<rparr>\<lparr>db_workerIdle := True\<rparr>)"
    by (rule run_idle) (simp_all add: restart_db0_def initial_db_def)
  moreover have "?db\<lparr>db_writeBuffer := [], db_pending := db_pending ?db @ [?op]\<rparr>\<lparr>db_workerIdle := True\<rparr> = restart_taken"
    by (simp add: restart_taken_def restart_db0_def initial_db_def)
  ultimately have "?run [] restart_taken"
    by simp
  then have "?run ([] @ map EvOp (db_pending restart_taken)) restart_done"
    unfolding restart_done_def by (rule run_tick) (simp_all add: restart_taken_def restart_db0_def initial_db_def)
  then have tick: "?run ([] @ [EvOp ?op]) restart_done"
    by (simp add: restart_taken_def)
  have "?run ([] @ [EvOp ?op]) (restart_done\<lparr>db_wal := Some (batch_recv restart_env restart_wal)\<rparr>)"
    by (rule dr_log [OF tick restart_done_facts(1)]) (metis wal_bg_def wal_exec.simps(1))
  then have "?run ([] @ [EvOp ?op])
      (restart_done\<lparr>db_wal := Some (batch_recv restart_env restart_wal)\<rparr>\<lparr>db_wal := Some restart_closed\<rparr>)"
    unfolding restart_closed_def by (rule dr_log) (simp, metis wal_bg_def wal_exec.simps(10))
  then show ?thesis
    by (simp add: restart_end_def)
qed

lemma restart_closed_in_order:
  "closed_in_order restart_closed" "w_accepted restart_closed = [(mk_entry OpCreate ''t'' [] VNil)\<lparr>e_time := 1\<rparr>]"
proof -
  have f: "entry_frame (we_lib restart_env) (we_pb restart_env) zero_key (we_rnd restart_env n)
      ((mk_entry OpCreate ''t'' [] VNil)\<lparr>e_time := 1\<rparr>) = Inr (frame [])" for n
    using restart_frame by (simp add: restart_env_def)
  have len: "length (frame []) = 8"
    by (simp add: frame_def)
  show "closed_in_order restart_closed" "w_accepted restart_closed = [(mk_entry OpCreate ''t'' [] VNil)\<lparr>e_time := 1\<rparr>]"
    by (simp_all add: closed_in_order_def restart_closed_def wal_Close_begin_def restart_wal_def wal_New_def Let_def
        batch_recv_def wal_cfg_of_def restart_config_def default_config_def flushBatch_def writeEntry_def f
        bufio_Write_def writerCap_def headerSize_def len bufio_Flush_def file_write_def)
qed

theorem reopen_restores_everything_witness:
  "\<exists>db'. InitWithConfig restart_penv sample_lib (we_pb restart_env) (Some restart_config) [True]
       (Some (w_file (wal_Close_finish restart_env restart_closed))) 7 (\<lambda>_. None) = Some (Inr db') \<and>
     same_up_to wire_norm (\<lambda>v. v) (view [(''t'', [])]) (view (db_data db'))"
proof -
  have key: "dc_EncryptionKey restart_config = zero_key" "dc_MaxRetries restart_config = 3" "dc_EnableWAL restart_config"
    by (simp_all add: restart_config_def default_config_def)
  have enc: "\<forall>e \<in> set (w_accepted restart_closed). encodable restart_env (dc_EncryptionKey restart_config) e \<and> wire_scalar (e_value e)"
    using restart_frame
    by (simp add: restart_closed_in_order(2) encodable_def restart_env_def key nonce_ok_def mk_entry_def)
  have load: "Load sample_lib True (db_storage restart_db0) (\<lambda>_. None) = Inr ([], 0)"
    by (simp add: Load_def)
  have snap: "view [] = norm_view (\<lambda>v. v) (view (db_data restart_db0))"
    by (simp add: restart_db0_def initial_db_def)
  have lib: "we_lib restart_env = sample_lib" "proto_faithful (we_pb restart_env)"
    by (simp_all add: restart_env_def)
  have last: "db_wal restart_end = Some restart_closed" "db_data restart_end = [(''t'', [])]" "\<not> db_wal_failed restart_end"
    by (simp_all add: restart_end_def restart_done_facts)
  have "\<exists>db'. InitWithConfig restart_penv sample_lib (we_pb restart_env) (Some restart_config) [True]
       (Some (w_file (wal_Close_finish restart_env restart_closed))) 7 (\<lambda>_. None) = Some (Inr db') \<and> fresh db' \<and>
     same_up_to wire_norm (\<lambda>v. v) (view (db_data restart_end)) (view (db_data db'))"
    by (rule reopen_restores_everything [OF lives_none restart_paths(1) key(3) restart_start lib(1) refl lib(2) dr_init restart_run _ _
          last(3) last(1) restart_closed_in_order(1) enc load snap])
      (simp_all add: restart_db0_def initial_db_def key)
  then show ?thesis
    unfolding last(2) by blast
qed

end
