(* ===== verification/Faults.thy ===== *)
theory Faults
  imports SystemProps
begin

text \<open>
  Errors, shutdown and interference: what happens when the log refuses an entry, when the database is
  closed while operations are under way, when saving, reloading and writing overlap, and when keys
  are wrong or changed.
\<close>

section \<open>A refused append\<close>

text \<open>C21: when the log refuses the entry of a write, the client is told that the write succeeded although
  the code takes it back, and a key that did not exist before is left behind with the value nil.\<close>
theorem refused_write_is_acknowledged:
  assumes "op_type op = opWrite" "gm_get (db_data db) (op_table op) \<noteq> None" "db_wal db = Some w"
    and "app (mk_entry OpWrite (op_table op) (op_key op) (op_value op)) w = (Some err, w')"
  shows "\<exists>db'. do_op L app op db = (None, True, db') \<and>
     rows db' (op_table op) (op_key op) = Some (old_value (db_data db) (op_table op) (op_key op))"
proof -
  let ?db1 = "on_metrics (IncrementWrites 1) (index_update L (op_table op) (op_key op)
      (old_value (db_data db) (op_table op) (op_key op)) (op_value op)
      (db\<lparr>db_data := set_key (op_table op) (op_key op) (op_value op) (db_data db)\<rparr>))"
  have "db_wal ?db1 = Some w" "db_data ?db1 = set_key (op_table op) (op_key op) (op_value op) (db_data db)"
    using assms(3) by (simp_all add: index_update_def)
  moreover have "do_op L app op db = (None, True, log_append app (mk_entry OpWrite (op_table op) (op_key op) (op_value op))
      (set_key (op_table op) (op_key op) (old_value (db_data db) (op_table op) (op_key op))) ?db1)"
    using assms(1,2) by (auto simp: do_op_def do_write_def Let_def db_op_defs)
  ultimately show ?thesis
    using assms(2,4)
    by (auto simp: log_append_def rows_def row_key_def put_row_def view_def set_key_def split: option.splits)
qed

definition refusing_db :: "unit db" where
  "refusing_db = (sample_db None)\<lparr>db_wal := Some (), db_data := [(''t'', [])]\<rparr>"

theorem refused_write_is_acknowledged_witness:
  "\<exists>db'. do_op sample_lib (\<lambda>e w. (Some ErrWalFull, w)) (sample_op 1 opWrite (VInt 5)) refusing_db = (None, True, db') \<and>
     rows db' ''t'' ''k'' = Some VNil"
  using refused_write_is_acknowledged [of "sample_op 1 opWrite (VInt 5)" refusing_db "()" "\<lambda>e w. (Some ErrWalFull, w)"
      ErrWalFull "()" sample_lib]
  by (simp add: sample_op_def mk_op_def refusing_db_def old_value_def)

text \<open>Creating a table that exists already is refused, but still logged; when the log refuses that
  entry, the rollback removes the existing table with all its records.\<close>
theorem refused_create_drops_table:
  assumes "op_type op = opCreate" "gm_get (db_data db) (op_table op) \<noteq> None" "db_wal db = Some w"
    and "app (mk_entry OpCreate (op_table op) [] VNil) w = (Some err, w')"
  shows "\<exists>db'. do_op L app op db = (Some (ErrTableExists (op_table op)), True, db') \<and>
     gm_get (db_data db') (op_table op) = None"
  using assms by (auto simp: do_op_def do_create_def Let_def log_append_def)

theorem refused_create_drops_table_witness:
  "\<exists>db'. do_op sample_lib (\<lambda>e w. (Some ErrWalFull, w)) (sample_op 1 opCreate VNil) refusing_db =
     (Some (ErrTableExists ''t''), True, db') \<and> gm_get (db_data db') ''t'' = None"
  using refused_create_drops_table [of "sample_op 1 opCreate VNil" refusing_db "()" "\<lambda>e w. (Some ErrWalFull, w)"
      ErrWalFull "()" sample_lib]
  by (simp add: sample_op_def mk_op_def refusing_db_def)

section \<open>Shutdown\<close>

text \<open>Once the shutdown has begun every request is refused without effect, and starting it again
  changes nothing.\<close>
theorem closed_refuses_everything:
  fixes db :: "'w db"
  defines "c \<equiv> Close_begin db"
  assumes "\<not> db_closed db"
  shows "Exist t c = Inl ErrDatabaseClosed \<and> Create ch t c = (Inl ErrDatabaseClosed, c) \<and>
     Write ch t k v c = (Inl ErrDatabaseClosed, c) \<and> WriteBatch ch t kvs c = (Inl ErrDatabaseClosed, c) \<and>
     Delete ch t k c = (Inl ErrDatabaseClosed, c) \<and> fst (Read el t k c) = Inl ErrDatabaseClosed \<and>
     ReadBatch L t c = (Inl ErrDatabaseClosed, c) \<and> BeginTransaction L now c = (Inl ErrDatabaseClosed, c) \<and>
     Import L rnd fault n el key p c fs = (Some ErrDatabaseClosed, c, fs) \<and>
     ChangeKey L rnd fault n el key key' c fs = (Some ErrDatabaseClosed, c, fs) \<and> Close_begin c = c"
  using assms
  by (simp add: Close_defs Exist_def Create_def Write_def WriteBatch_def Delete_def Read_def Let_def
      ReadBatch_def BeginTransaction_def Import_def ChangeKey_def)

theorem closed_refuses_everything_witness:
  "Write 1 ''t'' ''k'' VNil (Close_begin (sample_db None)) = (Inl ErrDatabaseClosed, Close_begin (sample_db None))"
  using closed_refuses_everything [of "sample_db None"] by (simp add: sample_db_def)

text \<open>All of the first part of \<^verbatim>\<open>CloseWithTimeout\<close>, with nothing in between.\<close>

lemma close_run:
  assumes "db_run L app bg db0 h db" "\<not> db_closed db" "\<not> db_bufferClosed db"
  shows "db_run L app bg db0 h (Close_begin db)"
proof -
  have "db_run L app bg db0 h (Close_mark db)"
    using assms by (intro dr_quiet [OF assms(1) qs_mark_closed])
  from dr_quiet [OF this qs_channel] have "db_run L app bg db0 h (Close_channel (Close_mark db))"
    using assms(3) by (simp add: Close_mark_def)
  then have "db_run L app bg db0 h (Close_cancel (Close_channel (Close_mark db)))"
    by (rule dr_quiet [OF _ qs_cancel]) (simp add: Close_channel_def)
  with assms(2) show ?thesis
    by (simp add: Close_begin_def)
qed

lemma calm_recv: "calm db \<Longrightarrow> calm ((worker_recv L app ^^ n) db)"
proof (induction n)
  case (Suc n)
  have "calm (worker_recv L app d)" if "calm d" for d
  proof -
    have "calm (d\<lparr>db_writeBuffer := ops, db_pending := p\<rparr>)" for ops p
      using that by (simp add: calm_def)
    with that calm_batch show ?thesis
      by (auto simp: worker_recv_def Let_def calm_def split: list.split)
  qed
  with Suc show ?case
    by simp
qed simp

text \<open>At its first \<^verbatim>\<open>select\<close>, with the channel closed, the worker has only one way to go.\<close>

lemma closed_worker_drains:
  fixes L :: golib and app :: "'w appender" and db :: "'w db"
  assumes "db_bufferClosed db" "\<not> db_workerDone db" "\<not> db_workerIdle db"
  defines "db' \<equiv> (worker_recv L app ^^ Suc (length (db_writeBuffer db))) db"
  shows "(\<forall>d. (worker_step L app ^^ Suc (length (db_writeBuffer db))) db d \<longleftrightarrow> d = db') \<and> db_workerDone db' \<and>
     db_writeBuffer db' = [] \<and> db_pending db' = [] \<and> db_accepted db' = db_accepted db"
  using assms(1-3) unfolding db'_def
proof (induction "db_writeBuffer db" arbitrary: db)
  case Nil
  have "worker_step L app db d \<longleftrightarrow> d = worker_recv L app db" for d
    using Nil.prems by (auto elim: worker_step.cases intro: ws_recv)
  with Nil show ?case
    by (simp add: worker_recv_def processBatch_fields eq_OO flip: Nil.hyps)
next
  case (Cons op ops)
  let ?db = "worker_recv L app db"
  have one: "worker_step L app db d \<longleftrightarrow> d = ?db" for d
    using Cons.prems by (auto elim: worker_step.cases intro: ws_recv)
  have buf: "db_writeBuffer db = op # ops"
    using Cons.hyps(2) by simp
  then have db: "ops = db_writeBuffer ?db" "db_bufferClosed ?db" "\<not> db_workerDone ?db" "\<not> db_workerIdle ?db" "db_accepted ?db = db_accepted db"
    using Cons.prems by (simp_all add: worker_recv_def Let_def processBatch_fields)
  have "(worker_step L app ^^ Suc (Suc n)) db d \<longleftrightarrow> (worker_step L app ^^ Suc n) ?db d" for n d
    using one by (auto simp: relpowp_commute relcompp_apply simp del: relpowp.simps(2) elim!: relpowp_Suc_E2 intro: relpowp_Suc_I2)
  with Cons.hyps(1) [OF db(1-4)] db(1,5) buf show ?case
    by (simp add: funpow_swap1 del: relpowp.simps)
qed

section \<open>Progress\<close>

text \<open>Any number of steps of the worker extend a run.\<close>

lemma run_worker_steps:
  "(worker_step L app ^^ n) db db' \<Longrightarrow> db_run L app bg db0 h db \<Longrightarrow>
   \<exists>ops. db_run L app bg db0 (h @ map EvOp ops) db'"
proof (induction n arbitrary: db')
  case 0
  then show ?case
    by (intro exI [of _ "[]"]) simp
next
  case (Suc n)
  then obtain d where d: "(worker_step L app ^^ n) db d" "worker_step L app d db'"
    by (auto elim: relpowp_Suc_E)
  with Suc obtain ops where "db_run L app bg db0 (h @ map EvOp ops) d"
    by blast
  from dr_worker [OF this d(2)] show ?case
    by (intro exI [of _ "ops @ handled d db'"]) simp
qed

text \<open>How many steps the worker needs at most until nothing is queued or pending, as long as the channel is
  open: two for each operation in the channel, whatever the second \<^verbatim>\<open>select\<close> chooses.\<close>

definition work :: "'w db \<Rightarrow> nat" where
  "work db =
     (let n = length (db_writeBuffer db) in
      if n = 0 then (if db_pending db = [] then 0 else if db_workerIdle db then 1 else 2)
      else if db_workerIdle db then 2 * n + 2 else 2 * n + 1)"

lemma work_zero: "work db = 0 \<longleftrightarrow> db_writeBuffer db = [] \<and> db_pending db = []"
  by (simp add: work_def Let_def)

definition awake :: "'w db \<Rightarrow> bool" where
  "awake db \<longleftrightarrow> \<not> db_workerDone db \<and> \<not> db_bufferClosed db \<and> \<not> db_ctxDone db"

lemma worker_step_work:
  assumes "worker_step L app db db'" "awake db"
  shows "work db' \<le> work db - 1 \<and> awake db' \<and> db_accepted db' = db_accepted db \<and> db_waiting db' = db_waiting db"
  using assms(1)
proof cases
  case ws_recv
  then show ?thesis
    using assms(2)
    by (cases "db_writeBuffer db") (auto simp: worker_recv_def work_def awake_def Let_def processBatch_fields)
next
  case ws_idle
  then show ?thesis
    using assms(2)
    by (cases "db_writeBuffer db") (auto simp: worker_idle_recv_def work_def awake_def Let_def)
next
  case ws_tick
  then show ?thesis
    using assms(2) by (auto simp: worker_tick_def work_def awake_def Let_def processBatch_fields)
next
  case ws_done
  with assms(2) show ?thesis
    by (simp add: awake_def)
qed

lemma worker_steps_work:
  "(worker_step L app ^^ n) db db' \<Longrightarrow> awake db \<Longrightarrow>
   work db' \<le> work db - n \<and> awake db' \<and> db_accepted db' = db_accepted db \<and> db_waiting db' = db_waiting db"
proof (induction n arbitrary: db')
  case (Suc n)
  then obtain d where d: "(worker_step L app ^^ n) db d" "worker_step L app d db'"
    by (auto elim: relpowp_Suc_E)
  with Suc worker_step_work [OF d(2)] show ?case
    by fastforce
qed simp

lemma worker_can_step: "\<not> db_workerDone db \<Longrightarrow> \<exists>db'. worker_step L app db db'"
  by (cases "db_workerIdle db") (blast intro: ws_recv ws_tick)+

lemma worker_can_run: "awake db \<Longrightarrow> \<exists>db'. (worker_step L app ^^ n) db db'"
proof (induction n)
  case (Suc n)
  then obtain d where d: "(worker_step L app ^^ n) db d"
    by blast
  have "\<not> db_workerDone d"
    using worker_steps_work [OF d Suc.prems] by (simp add: awake_def)
  then obtain d' where "worker_step L app d d'"
    using worker_can_step by blast
  with d show ?case
    by (auto intro: relpowp_Suc_I)
qed auto

lemma all_answered:
  assumes "db_run L app bg db0 h db" "fresh db0" "db_writeBuffer db = []" "db_pending db = []"
  shows "ops_of h = db_accepted db \<and> map fst (db_replies db) = map op_ch (db_accepted db) \<and>
     db_pendingOps db = of_nat (length (db_waiting db)) \<and>
     (\<not> db_wal_failed db \<longrightarrow> db_replies db = answers h (view (db_data db0)) \<and> view (db_data db) = after h (view (db_data db0)))"
  using db_run_inv [OF assms(1,2)] assms(3,4) by (simp add: sys_inv_def)

text \<open>C3: take any reachable state in which the shutdown has not closed the channel, whatever happened before
  (refused appends, failed commits, reloads), and let the worker go on while no client sends. It can
  take any number of steps, and whichever cases its second \<^verbatim>\<open>select\<close> chooses, after two steps for each
  operation in the channel and two more every operation ever accepted has been executed and answered, in
  the order of acceptance, nothing is pending, and \<^verbatim>\<open>pendingOps\<close> counts just the clients that still wait
  to send; unless the log refused an append, the answers and the tables are those of the abstract
  specification run on that history. This holds as long as the process does not panic.\<close>
theorem accepted_operations_answered:
  assumes "db_run L app bg db0 h db" "fresh db0" "\<not> db_workerDone db" "\<not> db_bufferClosed db"
    and "2 * length (db_writeBuffer db) + 2 \<le> n"
  shows "(\<exists>db'. (worker_step L app ^^ n) db db') \<and>
     (\<forall>db'. (worker_step L app ^^ n) db db' \<and> \<not> db_panicked db' \<longrightarrow>
        (\<exists>h'. db_run L app bg db0 (h @ h') db' \<and> ops_of (h @ h') = db_accepted db \<and> db_accepted db' = db_accepted db \<and>
           map fst (db_replies db') = map op_ch (db_accepted db) \<and> db_writeBuffer db' = [] \<and> db_pending db' = [] \<and>
           db_pendingOps db' = of_nat (length (db_waiting db)) \<and>
           (\<not> db_wal_failed db' \<longrightarrow> db_replies db' = answers (h @ h') (view (db_data db0)) \<and>
              view (db_data db') = after (h @ h') (view (db_data db0)))))"
proof (intro conjI allI impI)
  have awake: "awake db"
    using assms(3,4) db_run_ctx [OF assms(1,2)] by (auto simp: awake_def)
  then show "\<exists>db'. (worker_step L app ^^ n) db db'"
    by (rule worker_can_run)
  fix db'
  assume "(worker_step L app ^^ n) db db' \<and> \<not> db_panicked db'"
  then have steps: "(worker_step L app ^^ n) db db'"
    by simp
  note work = worker_steps_work [OF steps awake]
  have "work db \<le> 2 * length (db_writeBuffer db) + 2"
    by (simp add: work_def Let_def)
  with work assms(5) have empty: "db_writeBuffer db' = []" "db_pending db' = []"
    using work_zero [of db'] by simp_all
  obtain ops where "db_run L app bg db0 (h @ map EvOp ops) db'"
    using run_worker_steps [OF steps assms(1)] by blast
  with all_answered [OF this assms(2) empty] work empty
  show "\<exists>h'. db_run L app bg db0 (h @ h') db' \<and> ops_of (h @ h') = db_accepted db \<and> db_accepted db' = db_accepted db \<and>
       map fst (db_replies db') = map op_ch (db_accepted db) \<and> db_writeBuffer db' = [] \<and> db_pending db' = [] \<and>
       db_pendingOps db' = of_nat (length (db_waiting db)) \<and>
       (\<not> db_wal_failed db' \<longrightarrow> db_replies db' = answers (h @ h') (view (db_data db0)) \<and>
          view (db_data db') = after (h @ h') (view (db_data db0)))"
    by (intro exI [of _ "map EvOp ops"]) simp
qed

text \<open>The worker takes both operations, finds the channel empty and its ticker fires; then it goes round once more.\<close>

lemma sample_steps: "(worker_step sample_lib sample_app ^^ 6) sample_queued (worker_tick sample_lib sample_app (worker_recv sample_lib sample_app sample_done))"
  "\<not> db_panicked (worker_tick sample_lib sample_app (worker_recv sample_lib sample_app sample_done))"
proof -
  let ?recv = "worker_recv sample_lib sample_app" and ?tick = "worker_tick sample_lib sample_app"
  have q: "\<not> db_workerIdle sample_queued" "db_pending sample_queued = []" "\<not> db_bufferClosed sample_queued" "\<not> db_workerDone sample_queued"
    "db_writeBuffer sample_queued = [sample_op 1 opCreate VNil, sample_op 2 opWrite (VInt 7)]"
    by (simp_all add: sample_queued_eq sample_db_def)
  have d: "\<not> db_workerIdle sample_done" "\<not> db_workerDone sample_done" "db_writeBuffer sample_done = []"
    "\<not> db_bufferClosed sample_done" "db_pending sample_done = []"
    by (simp_all add: sample_done_def worker_tick_def sample_taken_eq processBatch_fields) (simp_all add: sample_db_def)
  have 1: "worker_step sample_lib sample_app sample_queued (?recv sample_queued)"
    "worker_step sample_lib sample_app (?recv sample_queued) (?recv (?recv sample_queued))"
    "worker_step sample_lib sample_app (?recv (?recv sample_queued)) sample_taken"
    unfolding sample_taken_def by (intro ws_recv; simp add: recv_take q workerBatch_def)+
  have 2: "worker_step sample_lib sample_app sample_taken sample_done"
    unfolding sample_done_def by (intro ws_tick) (simp_all add: sample_taken_eq sample_db_def)
  have 3: "worker_step sample_lib sample_app sample_done (?recv sample_done)"
    "worker_step sample_lib sample_app (?recv sample_done) (?tick (?recv sample_done))"
    by (intro ws_recv ws_tick; simp add: recv_idle d)+
  show "(worker_step sample_lib sample_app ^^ 6) sample_queued (?tick (?recv sample_done))"
    using 1 2 3 by (simp add: numeral_eq_Suc relcompp_apply) blast
  show "\<not> db_panicked (?tick (?recv sample_done))"
    using sample_not_panicked by (simp add: recv_idle d worker_tick_def processBatch_def)
qed

theorem accepted_operations_answered_witness:
  "\<exists>db'. (worker_step sample_lib sample_app ^^ 6) sample_queued db' \<and> map fst (db_replies db') = [1, 2] \<and>
     db_pendingOps db' = 0"
proof -
  have facts: "length (db_writeBuffer sample_queued) = 2" "map op_ch (db_accepted sample_queued) = [1, 2]"
    "\<not> db_workerDone sample_queued" "\<not> db_bufferClosed sample_queued" "db_waiting sample_queued = []"
    by (simp_all add: sample_queued_eq sample_db_def sample_op_def mk_op_def)
  show ?thesis
    using accepted_operations_answered [OF sample_queued_run fresh_sample facts(3,4), of 6] sample_steps facts by auto
qed

text \<open>C16: how the worker ends. Take any reachable state in which the channel has been closed, the worker has
  not stopped, and it is at its first \<^verbatim>\<open>select\<close>, which takes from the channel as long as it can. Then,
  with one step for each operation in the channel and one more, it can do nothing but drain it: it stops
  with nothing queued or pending, and every operation ever accepted has been executed and answered, in the
  order of acceptance; unless the log refused an append, as the abstract specification says. This holds
  as long as the process does not panic.\<close>
theorem worker_drains_closed_channel:
  assumes "db_run L app bg db0 h db" "fresh db0" "db_bufferClosed db" "\<not> db_workerDone db" "\<not> db_workerIdle db"
  shows "\<exists>db'. (\<forall>d. (worker_step L app ^^ Suc (length (db_writeBuffer db))) db d \<longleftrightarrow> d = db') \<and> db_workerDone db' \<and>
     (\<not> db_panicked db' \<longrightarrow>
        (\<exists>h'. db_run L app bg db0 (h @ h') db' \<and> ops_of (h @ h') = db_accepted db \<and> db_accepted db' = db_accepted db \<and>
           map fst (db_replies db') = map op_ch (db_accepted db) \<and> db_writeBuffer db' = [] \<and> db_pending db' = [] \<and>
           (\<not> db_wal_failed db' \<longrightarrow> db_replies db' = answers (h @ h') (view (db_data db0)) \<and>
              view (db_data db') = after (h @ h') (view (db_data db0)))))"
proof -
  let ?db' = "(worker_recv L app ^^ Suc (length (db_writeBuffer db))) db"
  note drain = closed_worker_drains [OF assms(3-5), of L app]
  then have steps: "(worker_step L app ^^ Suc (length (db_writeBuffer db))) db ?db'"
    by blast
  obtain ops where "db_run L app bg db0 (h @ map EvOp ops) ?db'"
    using run_worker_steps [OF steps assms(1)] by blast
  with all_answered [OF this assms(2)] drain show ?thesis
    by (intro exI [of _ ?db'] conjI impI exI [of _ "map EvOp ops"]) (simp_all del: relpowp.simps funpow.simps)
qed

theorem worker_drains_closed_channel_witness:
  "\<exists>db'. (worker_step sample_lib sample_app ^^ Suc 2) (Close_begin sample_queued) db' \<and> db_workerDone db' \<and>
     map fst (db_replies db') = [1, 2]"
proof -
  let ?db = "Close_begin sample_queued" and ?db' = "(worker_recv sample_lib sample_app ^^ Suc 2) (Close_begin sample_queued)"
  have facts: "db_bufferClosed ?db" "\<not> db_workerDone ?db" "\<not> db_workerIdle ?db" "length (db_writeBuffer ?db) = 2"
    "map op_ch (db_accepted ?db) = [1, 2]" "\<not> db_closed sample_queued" "\<not> db_bufferClosed sample_queued" "calm ?db"
    by (simp_all add: Close_defs sample_queued_eq sample_db_def sample_op_def mk_op_def calm_def)
  have "(worker_step sample_lib sample_app ^^ Suc 2) ?db ?db'"
    using closed_worker_drains [OF facts(1-3), of sample_lib sample_app] facts(4) by (simp del: relpowp.simps funpow.simps)
  moreover have "\<not> db_panicked ?db'"
    using calm_recv [OF facts(8), of "Suc 2" sample_lib sample_app] by (simp add: calm_def)
  ultimately show ?thesis
    using worker_drains_closed_channel [OF close_run [OF sample_queued_run facts(6,7)] fresh_sample facts(1-3)] facts(4,5)
    by (metis (no_types, lifting))
qed

section \<open>Commits and the log\<close>

text \<open>C22: a commit leaves the log alone, so a restart can undo it: when the last entry of the log for a key
  writes some older value, then replaying the log over a snapshot taken right after the commit, which
  holds the committed value, brings the older one back.\<close>
theorem restart_undoes_commit:
  assumes "CommitTransaction a db = (None, db')" "rows db' table key = Some v"
    and "last_write es table key = Some (Some x)" "x \<noteq> v"
  shows "db_wal db' = db_wal db \<and> row_key (view (recoverFromWAL es (db_data db'))) table key = Some x \<and>
     row_key (view (recoverFromWAL es (db_data db'))) table key \<noteq> rows db' table key"
  using CommitTransaction_keeps [OF assms(1)] recovered_last_write [OF assms(3)] assms(2,4) by auto

theorem restart_undoes_commit_witness:
  "row_key (view (recoverFromWAL [mk_entry OpWrite ''t'' ''k1'' (sample_person ''Bob'')]
      (db_data (snd (CommitTransaction 0 sample_commit))))) ''t'' ''k1'' = Some (sample_person ''Bob'')"
proof -
  have "rows (snd (CommitTransaction 0 sample_commit)) ''t'' ''k1'' = Some (sample_person ''Zoe'')"
    by (simp add: rows_def row_key_def view_def sample_commit_data)
  moreover have "last_write [mk_entry OpWrite ''t'' ''k1'' (sample_person ''Bob'')] ''t'' ''k1'' = Some (Some (sample_person ''Bob''))"
    by (simp add: mk_entry_def op_defs)
  moreover have "sample_person ''Bob'' \<noteq> sample_person ''Zoe''"
    by (simp add: sample_person_def)
  ultimately show ?thesis
    using restart_undoes_commit [OF sample_commit_ok] by blast
qed

text \<open>After the worker has stopped nothing answers any more.\<close>

lemma stopped_worker_silent:
  "db_run L app bg db0 h db \<Longrightarrow> db_workerDone db0 \<Longrightarrow> db_workerDone db \<and> db_replies db = db_replies db0"
proof (induction rule: db_run.induct)
  case (dr_send h db op choice)
  then show ?case
    by (cases choice) (simp_all add: enqueue_def)
next
  case (dr_worker h db db')
  then show ?case
    by (auto elim: worker_step.cases)
next
  case (dr_quiet h db db')
  with dr_quiet quiet_step_quiet [OF dr_quiet.hyps(2)] show ?case
    by (simp add: quiet_def)
next
  case (dr_commit h db m a r db')
  with CommitTransaction_keeps [OF dr_commit.hyps(4)] show ?case
    by simp
qed (simp_all add: announce_def)

text \<open>C28: an operation can be stranded for ever: when it is sent, and the shutdown begins, after the
  worker has found the channel empty and before it enters its second \<^verbatim>\<open>select\<close>, the worker may take
  the cancelled context, stop, and leave the operation in the channel; then no continuation of the
  run ever answers the client, which waits without a time-out.\<close>
theorem shutdown_strands_operation:
  "\<exists>h db. db_run sample_lib sample_app no_bg (sample_db None) h db \<and> db_accepted db = [sample_op 1 opCreate VNil] \<and>
     (\<forall>h' db'. db_run sample_lib sample_app no_bg db h' db' \<longrightarrow> db_replies db' = [])"
proof -
  let ?run = "db_run sample_lib sample_app no_bg (sample_db None)"
  let ?i = "(sample_db None)\<lparr>db_workerIdle := True\<rparr>"
  let ?q = "submit (sample_op 1 opCreate VNil) ?i"
  let ?c = "Close_begin ?q"
  let ?d = "worker_ctx_done sample_lib sample_app ?c"
  have q: "?q = ?i\<lparr>db_pendingOps := 1, db_writeBuffer := [sample_op 1 opCreate VNil], db_accepted := [sample_op 1 opCreate VNil]\<rparr>"
    by (simp add: submit_eq sample_db_def)
  have "?run [] ?i"
    by (rule run_idle [OF dr_init]) (simp_all add: sample_db_def)
  then have "?run [] ?q"
    by (rule submit_run) (simp add: sample_db_def can_choose_def sample_cfg_db_def default_config_def)
  then have c: "?run [] ?c"
    by (rule close_run) (simp_all only: q, simp_all add: sample_db_def)
  have "?run ([] @ map EvOp (handled ?c ?d)) ?d"
    by (rule dr_worker [OF c ws_done]) (simp_all only: q, simp_all add: Close_defs sample_db_def)
  moreover have d: "?d = ?c\<lparr>db_workerDone := True\<rparr>"
    unfolding q by (simp add: worker_ctx_done_def Close_defs sample_db_def processBatch_def)
  have "db_accepted ?d = [sample_op 1 opCreate VNil]" "db_workerDone ?d" "db_replies ?d = []"
    unfolding d unfolding q by (simp_all add: Close_defs sample_db_def)
  ultimately show ?thesis
    using stopped_worker_silent by metis
qed

theorem shutdown_strands_operation_witness:
  "\<exists>h db. db_run sample_lib sample_app no_bg (sample_db None) h db \<and>
     map op_ch (db_accepted db) = [1] \<and> db_replies db = []"
  using shutdown_strands_operation dr_init by (fastforce simp: sample_op_def mk_op_def)

text \<open>A client that passed its check before the channel was closed panics.\<close>

lemma send_after_close_panics:
  "\<not> db_closed db \<Longrightarrow> fst (enqueue Sent op (Close_begin db)) = Some ErrPanic"
  by (simp add: enqueue_def Close_defs)

end
