(* ===== verification/PersistProps.thy ===== *)
theory PersistProps
  imports SystemProps Persist
begin

text \<open>
  Saving, flushing, reloading, importing and changing the key.
\<close>

section \<open>Flush\<close>

lemma Save_file:
  assumes "Save L rnd fault now d e fs = (None, fs')"
  shows "\<exists>c. fs' (en_path e) = Some \<lparr>f_data = c, f_time = now, f_durable = True\<rparr>"
  using assms by (auto simp: Save_def split: option.splits sum.splits dest: atomicWrite_ok)

lemma Load_time:
  "fs (en_path e) = Some f \<Longrightarrow> Load L io e fs = Inr (d, t) \<Longrightarrow> t = f_time f"
  by (auto simp: Load_def split: if_splits sum.splits)

lemma verifyFlush_err: "verifyFlush L io db fs = (Some e, db1) \<Longrightarrow> db1 = db"
  by (auto simp: verifyFlush_def split: sum.splits prod.splits option.splits if_splits)

lemma verifyFlush_ok:
  "verifyFlush L io db fs = (None, db1) \<Longrightarrow>
     \<exists>d' t j. Load L io (db_storage db) fs = Inr (d', t) \<and> db1 = db\<lparr>db_lastLoaded := t\<rparr> \<and>
       json_marshal L (tables_val d') = Some j \<and> json_marshal L (tables_val (db_data db)) = Some j"
  by (auto simp: verifyFlush_def split: sum.splits prod.splits option.splits if_splits)

lemma flush_locked_err: "flush_locked L rnd fault now io elapsed sync db fs = (Some e, db', fs') \<Longrightarrow> db' = db"
  by (auto simp: flush_locked_def Let_def dest: verifyFlush_err split: if_splits option.splits prod.splits)

lemma flush_locked_ok:
  assumes "flush_locked L rnd fault now io elapsed sync db fs = (None, db', fs')" "db_dirtyFlag db"
  obtains db1 where "Save L rnd fault now (db_data db) (db_storage db) fs = (None, fs')" "verifyFlush L io db fs' = (None, db1)"
    "\<not> db_dirtyFlag db'" "db_data db' = db_data db1" "db_storage db' = db_storage db1" "db_lastLoaded db' = db_lastLoaded db1"
  using assms
  by (auto simp: flush_locked_def Let_def on_metrics_def split: if_splits option.splits prod.splits)

text \<open>C15: when \<^verbatim>\<open>Flush\<close> reports success on a database with unsaved changes, the state file is synced, and
  loading it yields data with the same JSON text as those in memory; the dirty flag is cleared, and
  the file watcher will not reload the file. When it reports an error, the dirty flag stays set.\<close>
theorem Flush_is_verified:
  assumes "db_dirtyFlag db" "flush_locked L rnd fault now io elapsed sync db fs = (r, db', fs')"
  shows "(r = None \<longrightarrow>
      (\<exists>d' f j. Load L io (db_storage db) fs' = Inr (d', now) \<and> fs' (en_path (db_storage db)) = Some f \<and> f_durable f \<and>
         json_marshal L (tables_val d') = Some j \<and> json_marshal L (tables_val (db_data db)) = Some j) \<and>
      \<not> db_dirtyFlag db' \<and> db_data db' = db_data db \<and>
      (now \<noteq> 0 \<longrightarrow> fileOnChange_tick L io' db' fs' = db')) \<and>
    (r \<noteq> None \<longrightarrow> db_dirtyFlag db' \<and> db_data db' = db_data db)"
proof (cases r)
  case (Some e)
  with assms show ?thesis
    using flush_locked_err by blast
next
  case None
  with assms obtain db1 where ok: "Save L rnd fault now (db_data db) (db_storage db) fs = (None, fs')"
    "verifyFlush L io db fs' = (None, db1)" "\<not> db_dirtyFlag db'" "db_data db' = db_data db1"
    "db_storage db' = db_storage db1" "db_lastLoaded db' = db_lastLoaded db1"
    using flush_locked_ok by metis
  obtain c where c: "fs' (en_path (db_storage db)) = Some \<lparr>f_data = c, f_time = now, f_durable = True\<rparr>"
    using Save_file [OF ok(1)] by blast
  obtain d' t j where d': "Load L io (db_storage db) fs' = Inr (d', t)" "db1 = db\<lparr>db_lastLoaded := t\<rparr>"
    "json_marshal L (tables_val d') = Some j" "json_marshal L (tables_val (db_data db)) = Some j"
    using verifyFlush_ok [OF ok(2)] by blast
  have "t = now"
    using Load_time [OF c d'(1)] by simp
  with ok d' c None show ?thesis
    by (auto simp: fileOnChange_tick_def GetPath_def)
qed

definition dirty_db :: "unit db" where
  "dirty_db = (sample_db None)\<lparr>db_data := sample_tables, db_dirtyFlag := True\<rparr>"

text \<open>A flush that succeeds, and one whose save fails.\<close>

lemma sample_flush_ok:
  "\<exists>db' fs'. flush_locked (sample_json (tables_val sample_tables)) (Some (replicate 12 0)) IoOk 5 True 0
      (\<lambda>w. (None, w)) dirty_db (\<lambda>_. None) = (None, db', fs')"
proof -
  let ?L = "sample_json (tables_val sample_tables)" and ?n = "Some (replicate 12 0) :: bytes option"
  have s: "db_storage dirty_db = sample_engine" "db_data dirty_db = sample_tables" "\<not> db_closed dirty_db"
    "db_dirtyFlag dirty_db" "db_wal dirty_db = None"
    by (simp_all add: dirty_db_def sample_db_def)
  obtain c where c: "Encrypt ?n [1] (en_key sample_engine) = Inr c"
    by (auto simp: Encrypt_def)
  then have save: "Save ?L ?n IoOk 5 sample_tables sample_engine (\<lambda>_. None) =
      atomicWrite IoOk 5 c (en_path sample_engine) (\<lambda>_. None)"
    by (simp add: Save_def sample_json_def)
  obtain fs' where fs': "atomicWrite IoOk 5 c (en_path sample_engine) (\<lambda>_. None) = (None, fs')"
    by (simp add: atomicWrite_def)
  then have "fs' (en_path sample_engine) = Some \<lparr>f_data = c, f_time = 5, f_durable = True\<rparr>"
    by (rule atomicWrite_ok)
  moreover have "Decrypt c (en_key sample_engine) = Inr [1]"
    by (rule Decrypt_Encrypt [OF sample_nonce c])
  moreover have "unmarshal_tables ?L [1] = Inr sample_tables"
    by (simp add: unmarshal_tables_def sample_json_def sample_tables_def tables_val_def)
  ultimately have "Load ?L True sample_engine fs' = Inr (sample_tables, 5)"
    by (simp add: Load_def)
  then have "verifyFlush ?L True dirty_db fs' = (None, dirty_db\<lparr>db_lastLoaded := 5\<rparr>)"
    by (simp add: verifyFlush_def s) (simp add: sample_json_def)
  then show ?thesis
    using save fs' s by (simp add: flush_locked_def Let_def)
qed

theorem Flush_is_verified_witness:
  "(\<exists>db' fs' d' f. flush_locked (sample_json (tables_val sample_tables)) (Some (replicate 12 0)) IoOk 5 True 0
      (\<lambda>w. (None, w)) dirty_db (\<lambda>_. None) = (None, db', fs') \<and> \<not> db_dirtyFlag db' \<and>
      Load (sample_json (tables_val sample_tables)) True sample_engine fs' = Inr (d', 5) \<and>
      fs' (en_path sample_engine) = Some f \<and> f_durable f) \<and>
   (\<exists>r db' fs'. flush_locked (sample_json (tables_val sample_tables)) (Some (replicate 12 0)) SyncFails 5 True 0
      (\<lambda>w. (None, w)) dirty_db (\<lambda>_. None) = (r, db', fs') \<and> r \<noteq> None \<and> db_dirtyFlag db')"
proof
  have s: "db_dirtyFlag dirty_db" "db_storage dirty_db = sample_engine"
    by (simp_all add: dirty_db_def sample_db_def)
  obtain db' fs' where f: "flush_locked (sample_json (tables_val sample_tables)) (Some (replicate 12 0)) IoOk 5 True 0
      (\<lambda>w. (None, w)) dirty_db (\<lambda>_. None) = (None, db', fs')"
    using sample_flush_ok by blast
  then show "\<exists>db' fs' d' f. flush_locked (sample_json (tables_val sample_tables)) (Some (replicate 12 0)) IoOk 5 True 0
      (\<lambda>w. (None, w)) dirty_db (\<lambda>_. None) = (None, db', fs') \<and> \<not> db_dirtyFlag db' \<and>
      Load (sample_json (tables_val sample_tables)) True sample_engine fs' = Inr (d', 5) \<and>
      fs' (en_path sample_engine) = Some f \<and> f_durable f"
    using Flush_is_verified [OF s(1) f] by (auto simp: s(2))
next
  obtain r db' fs' where f: "flush_locked (sample_json (tables_val sample_tables)) (Some (replicate 12 0)) SyncFails 5 True 0
      (\<lambda>w. (None, w)) dirty_db (\<lambda>_. None) = (r, db', fs')"
    by (metis prod_cases3)
  moreover have "r \<noteq> None"
    using f by (auto simp: flush_locked_def dirty_db_def sample_db_def Save_def sample_json_def Encrypt_def atomicWrite_def)
  ultimately show "\<exists>r db' fs'. flush_locked (sample_json (tables_val sample_tables)) (Some (replicate 12 0)) SyncFails 5 True 0
      (\<lambda>w. (None, w)) dirty_db (\<lambda>_. None) = (r, db', fs') \<and> r \<noteq> None \<and> db_dirtyFlag db'"
    using Flush_is_verified [OF _ f] by (auto simp: dirty_db_def)
qed

section \<open>Saving, reloading and writing overlap\<close>

text \<open>C24: \<^verbatim>\<open>flushToDisk\<close> clears the dirty flag after it has released the lock. When operations change the
  data between its save and that moment, the flag is lost, and the next tick of the file watcher
  replaces the data by the saved ones: the acknowledged changes disappear from memory.\<close>
theorem concurrent_write_is_lost:
  assumes "json_ok L nrm" "tables_ok (db_data db)" "nonce_ok rnd"
    and "flush_save L rnd fault now db fs = (None, fs')"
    and "db_storage db1 = db_storage db" "\<not> db_closed db1" "db_pendingOps db1 = 0" "db_lastLoaded db1 \<noteq> now"
  shows "view (db_data (fileOnChange_tick L True (flush_mark now elapsed db1) fs')) = norm_view nrm (view (db_data db))"
proof -
  obtain d' where d': "Load L True (db_storage db) fs' = Inr (d', now)" "view d' = norm_view nrm (view (db_data db))"
    using Save_stores [OF assms(1-3)] assms(4) unfolding flush_save_def by blast
  obtain c where "fs' (en_path (db_storage db)) = Some \<lparr>f_data = c, f_time = now, f_durable = True\<rparr>"
    using Save_file assms(4) unfolding flush_save_def by blast
  then show ?thesis
    using d' assms(5-8) by (simp add: fileOnChange_tick_def GetPath_def flush_mark_def on_metrics_def load_def)
qed

text \<open>The write that is lost: the worker stores the key between the save and the end of the flush.\<close>

theorem concurrent_write_is_lost_witness:
  "\<exists>fs'. flush_save (sample_json (tables_val sample_tables)) (Some (replicate 12 0)) IoOk 5 dirty_db (\<lambda>_. None) = (None, fs') \<and>
     view (db_data (fileOnChange_tick (sample_json (tables_val sample_tables)) True
       (flush_mark 5 0 (dirty_db\<lparr>db_data := set_key ''t'' ''new'' (VInt 1) sample_tables\<rparr>)) fs')) = view sample_tables"
proof -
  let ?L = "sample_json (tables_val sample_tables)"
  obtain fs' where fs': "flush_save ?L (Some (replicate 12 0)) IoOk 5 dirty_db (\<lambda>_. None) = (None, fs')"
    using sample_Save_ok by (auto simp: flush_save_def dirty_db_def sample_db_def sample_Save_def)
  have ok: "tables_ok (db_data dirty_db)"
    by (simp add: dirty_db_def)
  from concurrent_write_is_lost [OF sample_json_ok ok sample_nonce fs',
      of "dirty_db\<lparr>db_data := set_key ''t'' ''new'' (VInt 1) sample_tables\<rparr>" 0] fs'
  show ?thesis
    by (simp add: dirty_db_def sample_db_def)
qed

section \<open>Keys\<close>

text \<open>With a wrong key, export, import and the change of the key do nothing but report the error.\<close>
theorem wrong_key_has_no_effect:
  assumes "key \<noteq> dc_EncryptionKey (db_config db)" "\<not> db_closed db"
  shows "Export L fault now key path db fs = (Some ErrUnauthorized, fs) \<and>
     db_ExportEncrypted L rnd fault now key path db fs = (Some ErrUnauthorized, fs) \<and>
     Import L rnd fault now elapsed key path db fs = (Some ErrUnauthorized, db, fs) \<and>
     db_ImportEncrypted L rnd fault now elapsed key path db fs = (Some ErrUnauthorized, db, fs) \<and>
     ChangeKey L rnd fault now elapsed key newKey db fs = (Some ErrKeyMismatch, db, fs)"
  using assms
  by (auto simp: IsEqual_sound Export_def db_ExportEncrypted_def Import_def db_ImportEncrypted_def ChangeKey_def)

theorem wrong_key_has_no_effect_witness:
  "ChangeKey sample_lib None IoOk 0 0 [1] zero_key (sample_db None) (\<lambda>_. None) = (Some ErrKeyMismatch, sample_db None, \<lambda>_. None)"
proof -
  have "length [1::8 word] \<noteq> length zero_key"
    by (simp add: zero_key_def keyLen_def)
  then have "[1] \<noteq> zero_key"
    by metis
  with wrong_key_has_no_effect [of "[1]" "sample_db None"] show ?thesis
    by (simp add: sample_db_def sample_cfg_db_def default_config_def)
qed

text \<open>C25: changing the key is not atomic: when the save under the new key fails, the call reports the error,
  but the database goes on with the new key while the file on disk still is the one written under
  the old key; as long as no other snapshot is saved, loading decrypts it with the wrong key.\<close>
theorem ChangeKey_not_atomic:
  assumes "dc_EncryptionKey (db_config db) = oldKey" "\<not> db_closed db" "fault \<noteq> IoOk"
    and "json_marshal L (tables_val (db_data db)) = Some j"
  shows "\<exists>err db' fs'. ChangeKey L (Some nonce) fault now elapsed oldKey newKey db fs = (Some err, db', fs') \<and>
     en_key (db_storage db') = newKey \<and> dc_EncryptionKey (db_config db') = newKey \<and> db_dirtyFlag db' \<and>
     fs' (en_path (db_storage db')) = fs (en_path (db_storage db)) \<and> stored L (db_storage db) fs' = stored L (db_storage db) fs"
proof -
  let ?db = "db\<lparr>db_config := (db_config db)\<lparr>dc_EncryptionKey := newKey\<rparr>,
      db_storage := UpdateKey newKey (db_storage db), db_dirtyFlag := True\<rparr>"
  obtain err fs' where s: "Save L (Some nonce) fault now (db_data db) (UpdateKey newKey (db_storage db)) fs = (Some err, fs')"
    using assms(3,4) by (cases fault) (auto simp: Save_def Encrypt_def atomicWrite_def)
  then have "ChangeKey L (Some nonce) fault now elapsed oldKey newKey db fs = (Some err, ?db, fs')"
    using assms(1,2) by (simp add: IsEqual_sound ChangeKey_def flushToDisk_def flush_save_def)
  moreover have "fs' (en_path (db_storage db)) = fs (en_path (db_storage db))"
    using Save_err_path [OF s] by (simp add: UpdateKey_def)
  moreover from this have "stored L (db_storage db) fs' = stored L (db_storage db) fs"
    by (rule stored_cong)
  ultimately show ?thesis
    by (simp add: UpdateKey_def)
qed

theorem ChangeKey_not_atomic_witness:
  "\<exists>err db' fs'. ChangeKey (sample_json (tables_val sample_tables)) (Some (replicate 12 0)) RenameFails 9 0 zero_key
      (replicate 32 1) dirty_db (\<lambda>_. None) = (Some err, db', fs') \<and> en_key (db_storage db') = replicate 32 1"
proof -
  have m: "json_marshal (sample_json (tables_val sample_tables)) (tables_val (db_data dirty_db)) = Some [1]"
    by (simp add: sample_json_def dirty_db_def)
  show ?thesis
    using ChangeKey_not_atomic [OF _ _ _ m, of zero_key RenameFails "replicate 12 0" 9 0 "replicate 32 1" "\<lambda>_. None"]
    by (auto simp: dirty_db_def sample_db_def sample_cfg_db_def default_config_def)
qed

text \<open>C33: an import replaces all data without moving the version, so a transaction begun before it commits
  afterwards without a conflict, on data its snapshot never saw.\<close>
theorem import_escapes_isolation:
  assumes "CommitTransaction a db = (None, db1)"
    and "import_data L rnd fault now elapsed (Inr data) db fs = (r, db2, fs2)"
  shows "\<exists>db3. CommitTransaction a db2 = (None, db3) \<and> db_version db2 = db_version db \<and>
     (\<exists>m. db_txManager db = Some m \<and> view (db_data db3) = commit_world (tx_Changes (tx_store m ! a)) (view data))"
proof -
  obtain m where m: "db_txManager db = Some m"
    using assms(1) by (cases "db_txManager db") (auto simp: CommitTransaction_def)
  have db2: "db_data db2 = data" "db_version db2 = db_version db" "db_txManager db2 = Some m"
    using assms(2) m by (auto simp: import_data_def flushToDisk_def flush_mark_def on_metrics_def split: option.splits prod.splits)
  have c: "live (tx_store m ! a)" "db_version db = SnapshotVersion a (snd (Commit a m))"
    using CommitTransaction_cases [OF assms(1) m] by auto
  obtain r3 db3 where db3: "CommitTransaction a db2 = (r3, db3)"
    by fastforce
  have "r3 = None"
    using db3 c db2 by (auto simp: CommitTransaction_def Commit_def Let_def live_def SnapshotVersion_def split: if_splits)
  with CommitTransaction_cases [OF db3 db2(3)] db3 db2 m show ?thesis
    by (auto simp: view_apply_changes)
qed

theorem import_escapes_isolation_witness:
  "\<exists>db2 fs2 db3. import_data sample_lib None IoOk 5 0 (Inr sample_tables) sample_commit (\<lambda>_. None) = (Some ErrJson, db2, fs2) \<and>
     CommitTransaction 0 db2 = (None, db3)"
proof -
  obtain db2 fs2 where i: "import_data sample_lib None IoOk 5 0 (Inr sample_tables) sample_commit (\<lambda>_. None) = (Some ErrJson, db2, fs2)"
    by (simp add: import_data_def flushToDisk_def flush_save_def Save_def sample_lib_def)
  from import_escapes_isolation [OF sample_commit_ok i] i show ?thesis
    by blast
qed

text \<open>A conflicting commit leaves the data alone, but uses the transaction up: it is marked committed,
  counted as committed, and cannot be retried or rolled back.\<close>
theorem conflict_uses_up_transaction:
  assumes "db_txManager db = Some m" "a < length (tx_store m)" "live (tx_store m ! a)"
    and "db_version db \<noteq> tx_snapshotVersion (tx_store m ! a)"
  shows "\<exists>db' m'. CommitTransaction a db = (Some (ErrTxConflict (tx_snapshotVersion (tx_store m ! a)) (db_version db)), db') \<and>
     db_data db' = db_data db \<and> db_txManager db' = Some m' \<and> tx_committed m' = tx_committed m + 1 \<and>
     CommitTransaction a db' = (Some ErrTxFinalized, db') \<and> Rollback a m' = (Some ErrTxFinalized, m')"
  using assms
  by (simp add: CommitTransaction_def Commit_def Rollback_def SnapshotVersion_def live_def Let_def)

theorem conflict_uses_up_transaction_witness:
  "\<exists>db'. CommitTransaction 0 (sample_commit\<lparr>db_version := 3\<rparr>) = (Some (ErrTxConflict 0 3), db') \<and>
     fst (CommitTransaction 0 db') = Some ErrTxFinalized"
proof -
  obtain m where m: "db_txManager (sample_commit\<lparr>db_version := 3\<rparr>) = Some m" "0 < length (tx_store m)" "live (tx_store m ! 0)"
    "tx_snapshotVersion (tx_store m ! 0) = 0"
    by (simp add: sample_commit_def tx_Write_def Begin_def tx_NewManager_def set_change_def Let_def live_def)
  then have "db_version (sample_commit\<lparr>db_version := 3\<rparr>) \<noteq> tx_snapshotVersion (tx_store m ! 0)"
    by simp
  from conflict_uses_up_transaction [OF m(1-3) this] m(4) show ?thesis
    by auto
qed

section \<open>Loading at the start\<close>

text \<open>The load at the start succeeds when one of the allowed attempts can read the file, and then yields
  what that attempt read; with no attempt allowed (\<^verbatim>\<open>MaxRetries\<close> zero) it always fails.\<close>
theorem loadWithRetry_first_success:
  assumes "Load L True (db_storage db) fs = Inr (d, t)" "fs (en_path (db_storage db)) = Some f"
  shows "loadWithRetry L ios db fs =
     (if True \<in> set ios then (None, db\<lparr>db_data := d, db_lastLoaded := t\<rparr>) else (Some ErrLoadRetries, db))"
proof (induction ios)
  case Nil
  then show ?case by simp
next
  case (Cons io ios)
  have "Load L False (db_storage db) fs = Inl ErrIO"
    using assms(2) by (simp add: Load_def)
  with assms(1) Cons show ?case
    by (cases io) (auto simp: load_def)
qed

end
