(* ===== verification/Mapper.thy ===== *)
theory Mapper
  imports GoValue
begin

text \<open>
  The mapper, \<^verbatim>\<open>modules/mapper/mapper.go\<close>: filling a Go struct from a \<^verbatim>\<open>map[string]any\<close> by reflection.

  A destination is described by its static type and its current value. Named element types of
  slices, arrays and pointers are looked up in an environment \<open>T\<close> of type declarations, because such
  a type may be recursive; struct types list their fields in place, with the name, the \<^verbatim>\<open>json\<close> tag,
  whether reflection can set the field, and the type. A field of a defined non-struct type
  (\<^verbatim>\<open>type Age int\<close>) and interfaces other than \<^verbatim>\<open>any\<close> are not modelled. Values are copied: that a slice
  or a map assigned to a field is shared with the source is not modelled either.
\<close>

section \<open>Types\<close>

datatype gotype =
    GAny | GBool
  | GInt | GInt8 | GInt16 | GInt32 | GInt64
  | GUint | GUint8 | GUint16 | GUint32 | GUint64
  | GFloat32 | GFloat64
  | GString
  | GBytes                                          \<comment> \<open>\<^verbatim>\<open>[]byte\<close>\<close>
  | GMap                                            \<comment> \<open>\<^verbatim>\<open>map[string]any\<close>\<close>
  | GSlice                                          \<comment> \<open>\<^verbatim>\<open>[]any\<close>\<close>
  | GTSlice string
  | GArray string gotype nat
  | GStruct string "(string \<times> string \<times> bool \<times> gotype) list"
  | GPtr string

text \<open>Whether the dynamic type of a value is a given type. Named types are equal when their names are.\<close>

fun has_type :: "gotype \<Rightarrow> goval \<Rightarrow> bool" where
  "has_type GAny v = False"
| "has_type GBool v = (case v of VBool _ \<Rightarrow> True | _ \<Rightarrow> False)"
| "has_type GInt v = (case v of VInt _ \<Rightarrow> True | _ \<Rightarrow> False)"
| "has_type GInt8 v = (case v of VInt8 _ \<Rightarrow> True | _ \<Rightarrow> False)"
| "has_type GInt16 v = (case v of VInt16 _ \<Rightarrow> True | _ \<Rightarrow> False)"
| "has_type GInt32 v = (case v of VInt32 _ \<Rightarrow> True | _ \<Rightarrow> False)"
| "has_type GInt64 v = (case v of VInt64 _ \<Rightarrow> True | _ \<Rightarrow> False)"
| "has_type GUint v = (case v of VUint _ \<Rightarrow> True | _ \<Rightarrow> False)"
| "has_type GUint8 v = (case v of VUint8 _ \<Rightarrow> True | _ \<Rightarrow> False)"
| "has_type GUint16 v = (case v of VUint16 _ \<Rightarrow> True | _ \<Rightarrow> False)"
| "has_type GUint32 v = (case v of VUint32 _ \<Rightarrow> True | _ \<Rightarrow> False)"
| "has_type GUint64 v = (case v of VUint64 _ \<Rightarrow> True | _ \<Rightarrow> False)"
| "has_type GFloat32 v = (case v of VFloat32 _ \<Rightarrow> True | _ \<Rightarrow> False)"
| "has_type GFloat64 v = (case v of VFloat64 _ \<Rightarrow> True | _ \<Rightarrow> False)"
| "has_type GString v = (case v of VString _ \<Rightarrow> True | _ \<Rightarrow> False)"
| "has_type GBytes v = (case v of VBytes _ \<Rightarrow> True | _ \<Rightarrow> False)"
| "has_type GMap v = (case v of VMap _ \<Rightarrow> True | _ \<Rightarrow> False)"
| "has_type GSlice v = (case v of VSlice _ \<Rightarrow> True | _ \<Rightarrow> False)"
| "has_type (GTSlice t) v = (case v of VTSlice t' _ \<Rightarrow> t' = t | _ \<Rightarrow> False)"
| "has_type (GArray t _ n) v = (case v of VArray t' es \<Rightarrow> t' = t \<and> length es = n | _ \<Rightarrow> False)"
| "has_type (GStruct t _) v = (case v of VStruct t' _ \<Rightarrow> t' = t | _ \<Rightarrow> False)"
| "has_type (GPtr t) v = (case v of VPtr t' _ \<Rightarrow> t' = t | _ \<Rightarrow> False)"

text \<open>\<^verbatim>\<open>reflect.Type.AssignableTo\<close> for a value that is not nil.\<close>

definition assignable :: "gotype \<Rightarrow> goval \<Rightarrow> bool" where
  "assignable ty v \<longleftrightarrow> ty = GAny \<or> has_type ty v"

text \<open>The zero value of a type, \<^verbatim>\<open>reflect.New\<close>.\<close>

fun zero_val :: "gotype \<Rightarrow> goval" where
  "zero_val GAny = VNil"
| "zero_val GBool = VBool False"
| "zero_val GInt = VInt 0" | "zero_val GInt8 = VInt8 0" | "zero_val GInt16 = VInt16 0"
| "zero_val GInt32 = VInt32 0" | "zero_val GInt64 = VInt64 0"
| "zero_val GUint = VUint 0" | "zero_val GUint8 = VUint8 0" | "zero_val GUint16 = VUint16 0"
| "zero_val GUint32 = VUint32 0" | "zero_val GUint64 = VUint64 0"
| "zero_val GFloat32 = VFloat32 0" | "zero_val GFloat64 = VFloat64 0"
| "zero_val GString = VString []"
| "zero_val GBytes = VBytes []"
| "zero_val GMap = VMap []"
| "zero_val GSlice = VSlice []"
| "zero_val (GTSlice t) = VTSlice t []"
| "zero_val (GArray t ty n) = VArray t (replicate n (zero_val ty))"
| "zero_val (GStruct t fs) = VStruct t (map (\<lambda>(n, g, c, ty). (n, g, zero_val ty)) fs)"
| "zero_val (GPtr t) = VPtr t None"

definition zero_fields :: "(string \<times> string \<times> bool \<times> gotype) list \<Rightarrow> (string \<times> string \<times> goval) list" where
  "zero_fields fs = map (\<lambda>(n, g, c, ty). (n, g, zero_val ty)) fs"

section \<open>Conversions\<close>

text \<open>
  What the mapper takes from outside: the conversions between integers and floating-point numbers,
  whose results out of range depend on the machine, and the constructors of \<^verbatim>\<open>gonum\<close>, which may
  return a nil pointer.
\<close>

record maplib =
  ml_f32_i64 :: "32 word \<Rightarrow> 64 word"
  ml_f64_i64 :: "64 word \<Rightarrow> 64 word"
  ml_f32_u64 :: "32 word \<Rightarrow> 64 word"
  ml_f64_u64 :: "64 word \<Rightarrow> 64 word"
  ml_f64_u8 :: "64 word \<Rightarrow> 8 word"
  ml_f32_f64 :: "32 word \<Rightarrow> 64 word"
  ml_f64_f32 :: "64 word \<Rightarrow> 32 word"
  ml_i64_f64 :: "64 word \<Rightarrow> 64 word"
  ml_u64_f64 :: "64 word \<Rightarrow> 64 word"
  gonum_New :: "string \<Rightarrow> goval option"
  gonum_FromFloat64 :: "64 word \<Rightarrow> goval option"
  gonum_FromInt :: "64 word \<Rightarrow> goval option"
  gonum_FromInt64 :: "64 word \<Rightarrow> goval option"
  gonum_FromUint64 :: "64 word \<Rightarrow> goval option"

definition convertString :: "goval \<Rightarrow> goval \<Rightarrow> goval" where
  "convertString old raw = (case raw of VString s \<Rightarrow> VString s | _ \<Rightarrow> old)"

definition convertBool :: "goval \<Rightarrow> goval \<Rightarrow> goval" where
  "convertBool old raw = (case raw of VBool b \<Rightarrow> VBool b | _ \<Rightarrow> old)"

text \<open>\<^verbatim>\<open>SetInt\<close> and \<^verbatim>\<open>SetUint\<close> keep the low bits that the field has room for.\<close>

fun SetInt :: "gotype \<Rightarrow> 64 word \<Rightarrow> goval" where
  "SetInt GInt x = VInt x"
| "SetInt GInt8 x = VInt8 (ucast x)"
| "SetInt GInt16 x = VInt16 (ucast x)"
| "SetInt GInt32 x = VInt32 (ucast x)"
| "SetInt GInt64 x = VInt64 x"
| "SetInt _ x = VNil"

fun SetUint :: "gotype \<Rightarrow> 64 word \<Rightarrow> goval" where
  "SetUint GUint x = VUint x"
| "SetUint GUint8 x = VUint8 (ucast x)"
| "SetUint GUint16 x = VUint16 (ucast x)"
| "SetUint GUint32 x = VUint32 (ucast x)"
| "SetUint GUint64 x = VUint64 x"
| "SetUint _ x = VNil"

fun SetFloat :: "maplib \<Rightarrow> gotype \<Rightarrow> 64 word \<Rightarrow> goval" where
  "SetFloat M GFloat32 x = VFloat32 (ml_f64_f32 M x)"
| "SetFloat M GFloat64 x = VFloat64 x"
| "SetFloat M _ x = VNil"

text \<open>The type switches of \<^verbatim>\<open>convertInt\<close>, \<^verbatim>\<open>convertUint\<close> and \<^verbatim>\<open>convertFloat\<close>.\<close>

fun int64_of :: "maplib \<Rightarrow> goval \<Rightarrow> 64 word option" where
  "int64_of M (VInt w) = Some w" | "int64_of M (VInt8 w) = Some (scast w)"
| "int64_of M (VInt16 w) = Some (scast w)" | "int64_of M (VInt32 w) = Some (scast w)"
| "int64_of M (VInt64 w) = Some w" | "int64_of M (VUint w) = Some w"
| "int64_of M (VUint8 w) = Some (ucast w)" | "int64_of M (VUint16 w) = Some (ucast w)"
| "int64_of M (VUint32 w) = Some (ucast w)" | "int64_of M (VUint64 w) = Some w"
| "int64_of M (VFloat32 x) = Some (ml_f32_i64 M x)" | "int64_of M (VFloat64 x) = Some (ml_f64_i64 M x)"
| "int64_of M _ = None"

fun uint64_of :: "maplib \<Rightarrow> goval \<Rightarrow> 64 word option" where
  "uint64_of M (VUint w) = Some w" | "uint64_of M (VUint8 w) = Some (ucast w)"
| "uint64_of M (VUint16 w) = Some (ucast w)" | "uint64_of M (VUint32 w) = Some (ucast w)"
| "uint64_of M (VUint64 w) = Some w" | "uint64_of M (VInt w) = Some w"
| "uint64_of M (VInt8 w) = Some (scast w)" | "uint64_of M (VInt16 w) = Some (scast w)"
| "uint64_of M (VInt32 w) = Some (scast w)" | "uint64_of M (VInt64 w) = Some w"
| "uint64_of M (VFloat32 x) = Some (ml_f32_u64 M x)" | "uint64_of M (VFloat64 x) = Some (ml_f64_u64 M x)"
| "uint64_of M _ = None"

fun float64_of :: "maplib \<Rightarrow> goval \<Rightarrow> 64 word option" where
  "float64_of M (VFloat32 x) = Some (ml_f32_f64 M x)" | "float64_of M (VFloat64 x) = Some x"
| "float64_of M (VInt w) = Some (ml_i64_f64 M w)" | "float64_of M (VInt8 w) = Some (ml_i64_f64 M (scast w))"
| "float64_of M (VInt16 w) = Some (ml_i64_f64 M (scast w))" | "float64_of M (VInt32 w) = Some (ml_i64_f64 M (scast w))"
| "float64_of M (VInt64 w) = Some (ml_i64_f64 M w)" | "float64_of M (VUint w) = Some (ml_u64_f64 M w)"
| "float64_of M (VUint8 w) = Some (ml_u64_f64 M (ucast w))" | "float64_of M (VUint16 w) = Some (ml_u64_f64 M (ucast w))"
| "float64_of M (VUint32 w) = Some (ml_u64_f64 M (ucast w))" | "float64_of M (VUint64 w) = Some (ml_u64_f64 M w)"
| "float64_of M _ = None"

definition convertInt :: "maplib \<Rightarrow> gotype \<Rightarrow> goval \<Rightarrow> goval \<Rightarrow> goval" where
  "convertInt M ty old raw = (case int64_of M raw of None \<Rightarrow> old | Some x \<Rightarrow> SetInt ty x)"

definition convertUint :: "maplib \<Rightarrow> gotype \<Rightarrow> goval \<Rightarrow> goval \<Rightarrow> goval" where
  "convertUint M ty old raw = (case uint64_of M raw of None \<Rightarrow> old | Some x \<Rightarrow> SetUint ty x)"

definition convertFloat :: "maplib \<Rightarrow> gotype \<Rightarrow> goval \<Rightarrow> goval \<Rightarrow> goval" where
  "convertFloat M ty old raw = (case float64_of M raw of None \<Rightarrow> old | Some x \<Rightarrow> SetFloat M ty x)"

text \<open>The loop over the elements of a \<^verbatim>\<open>[]any\<close>; \<open>wide\<close>: an \<^verbatim>\<open>int64\<close> is taken too, as in \<^verbatim>\<open>convertArray\<close>.\<close>

fun collect_bytes :: "maplib \<Rightarrow> bool \<Rightarrow> goval list \<Rightarrow> bytes option" where
  "collect_bytes M wide [] = Some []"
| "collect_bytes M wide (e # es) =
     (case (case e of
              VUint8 n \<Rightarrow> Some n
            | VInt n \<Rightarrow> Some (ucast n)
            | VInt64 n \<Rightarrow> (if wide then Some (ucast n) else None)
            | VFloat64 x \<Rightarrow> Some (ml_f64_u8 M x)
            | _ \<Rightarrow> None) of
        None \<Rightarrow> None
      | Some b \<Rightarrow> map_option (\<lambda>bs. b # bs) (collect_bytes M wide es))"

definition convertBytes :: "maplib \<Rightarrow> goval \<Rightarrow> goval \<Rightarrow> goval" where
  "convertBytes M old raw =
     (case raw of
        VBytes b \<Rightarrow> VBytes b
      | VString s \<Rightarrow> VBytes (bytes_of s)
      | VSlice es \<Rightarrow> (case collect_bytes M False es of None \<Rightarrow> old | Some b \<Rightarrow> VBytes b)
      | _ \<Rightarrow> old)"

definition convertArray :: "maplib \<Rightarrow> string \<Rightarrow> gotype \<Rightarrow> nat \<Rightarrow> goval \<Rightarrow> goval \<Rightarrow> goval" where
  "convertArray M t ty n old raw =
     (if ty \<noteq> GUint8 then old
      else (case (case raw of
                    VBytes b \<Rightarrow> Some b
                  | VString s \<Rightarrow> Some (bytes_of s)
                  | VSlice es \<Rightarrow> collect_bytes M True es
                  | _ \<Rightarrow> None) of
              None \<Rightarrow> old
            | Some src \<Rightarrow> if length src \<noteq> n then old else VArray t (map VUint8 src)))"

definition gonumNumber :: string where
  "gonumNumber = ''gonum.Number''"

definition parseGonumNumber :: "maplib \<Rightarrow> goval \<Rightarrow> goval option" where
  "parseGonumNumber M raw =
     (case raw of
        VString s \<Rightarrow> gonum_New M s
      | VFloat64 x \<Rightarrow> gonum_FromFloat64 M x
      | VFloat32 x \<Rightarrow> gonum_FromFloat64 M (ml_f32_f64 M x)
      | VInt n \<Rightarrow> gonum_FromInt M n
      | VInt64 n \<Rightarrow> gonum_FromInt64 M n
      | VUint64 n \<Rightarrow> gonum_FromUint64 M n
      | VMap m \<Rightarrow> (case gm_get m ''value'' of Some (VString s) \<Rightarrow> gonum_New M s | _ \<Rightarrow> None)
      | _ \<Rightarrow> None)"

section \<open>MapToStruct\<close>

text \<open>The name under which a field is looked up: everything before the first comma of its tag.\<close>

definition field_key :: "string \<Rightarrow> string \<Rightarrow> string" where
  "field_key name tag =
     (if tag \<noteq> [] \<and> tag \<noteq> ''-'' then takeWhile (\<lambda>c. c \<noteq> CHR '','') tag else name)"

lemma gm_get_size: "gm_get m k = Some v \<Longrightarrow> size v < size (VMap m)"
  by (induction m) (auto split: if_splits)

lemma size_slice:
  "size v < size (VSlice (v # vs))" "size (VSlice vs) < size (VSlice (v # vs))"
  by simp_all

text \<open>
  \<open>map_fields\<close> is the loop over the fields, \<open>convert\<close> its switch on the kind of the field, and
  \<open>slice_items\<close> the loop of \<^verbatim>\<open>convertSliceStructSafe\<close>. The recursion goes down in the source value.
\<close>

function (sequential)
  map_fields :: "maplib \<Rightarrow> (string \<Rightarrow> gotype) \<Rightarrow> (string \<times> goval) list \<Rightarrow>
      (string \<times> string \<times> bool \<times> gotype) list \<Rightarrow> (string \<times> string \<times> goval) list \<Rightarrow> (string \<times> string \<times> goval) list" and
  convert :: "maplib \<Rightarrow> (string \<Rightarrow> gotype) \<Rightarrow> gotype \<Rightarrow> goval \<Rightarrow> goval \<Rightarrow> goval" and
  slice_items :: "maplib \<Rightarrow> (string \<Rightarrow> gotype) \<Rightarrow> gotype \<Rightarrow> goval list \<Rightarrow> goval list"
where
  "map_fields M T m ((name, tag, can_set, ty) # fs) ((n, g, v) # vs) =
     (n, g,
      if \<not> can_set then v
      else (case gm_get m (field_key name tag) of
              None \<Rightarrow> v
            | Some raw \<Rightarrow>
                if raw = VNil then v
                else if assignable ty raw then raw
                else convert M T ty v raw)) # map_fields M T m fs vs"
| "map_fields M T m _ vs = vs"
| "convert M T ty v raw =
     (case ty of
        GString \<Rightarrow> convertString v raw
      | GBool \<Rightarrow> convertBool v raw
      | GInt \<Rightarrow> convertInt M ty v raw | GInt8 \<Rightarrow> convertInt M ty v raw | GInt16 \<Rightarrow> convertInt M ty v raw
      | GInt32 \<Rightarrow> convertInt M ty v raw | GInt64 \<Rightarrow> convertInt M ty v raw
      | GUint \<Rightarrow> convertUint M ty v raw | GUint8 \<Rightarrow> convertUint M ty v raw | GUint16 \<Rightarrow> convertUint M ty v raw
      | GUint32 \<Rightarrow> convertUint M ty v raw | GUint64 \<Rightarrow> convertUint M ty v raw
      | GFloat32 \<Rightarrow> convertFloat M ty v raw | GFloat64 \<Rightarrow> convertFloat M ty v raw
      | GStruct t fs \<Rightarrow>
          (case raw of
             VMap sub \<Rightarrow> (case v of VStruct t' vs \<Rightarrow> VStruct t' (map_fields M T sub fs vs) | _ \<Rightarrow> v)
           | _ \<Rightarrow> v)
      | GPtr t \<Rightarrow>
          if t = gonumNumber then
            (case parseGonumNumber M raw of None \<Rightarrow> v | Some num \<Rightarrow> VPtr gonumNumber (Some num))
          else (case T t of
                  GStruct t' fs \<Rightarrow>
                    (case raw of
                       VMap sub \<Rightarrow> VPtr t (Some (VStruct t' (map_fields M T sub fs (zero_fields fs))))
                     | _ \<Rightarrow> v)
                | _ \<Rightarrow> v)
      | GBytes \<Rightarrow> convertBytes M v raw
      | GTSlice t \<Rightarrow> (case raw of VSlice items \<Rightarrow> VTSlice t (slice_items M T (T t) items) | _ \<Rightarrow> v)
      | GArray t ety n \<Rightarrow> convertArray M t ety n v raw
      | _ \<Rightarrow> v)"
| "slice_items M T ety [] = []"
| "slice_items M T ety (item # items) =
     (if item = VNil then []
      else if assignable ety item then [item]
      else (case ety of
              GStruct t fs \<Rightarrow>
                (case item of VMap sub \<Rightarrow> [VStruct t (map_fields M T sub fs (zero_fields fs))] | _ \<Rightarrow> [])
            | GPtr p \<Rightarrow>
                (case T p of
                   GStruct t fs \<Rightarrow>
                     (case item of
                        VMap sub \<Rightarrow> [VPtr p (Some (VStruct t (map_fields M T sub fs (zero_fields fs))))]
                      | _ \<Rightarrow> [])
                 | _ \<Rightarrow> [])
            | _ \<Rightarrow> [])) @ slice_items M T ety items"
  by pat_completeness auto

termination
  by (relation "measures
      [\<lambda>x. case x of Inl (M, T, m, fs, vs) \<Rightarrow> 2 * size (VMap m) | Inr (Inl (M, T, ty, v, raw)) \<Rightarrow> 2 * size raw + 1
         | Inr (Inr (M, T, ety, items)) \<Rightarrow> 2 * size (VSlice items),
       \<lambda>x. case x of Inl (M, T, m, fs, vs) \<Rightarrow> length fs | _ \<Rightarrow> 0]")
    (auto dest: gm_get_size simp: size_slice simp del: goval.size)

declare map_fields.simps [simp] convert.simps [simp del]

section \<open>The interface\<close>

text \<open>The destination: no pointer at all, a nil pointer, or a pointer to a value of a static type.\<close>

datatype dest = NotPointer | NilPointer | PointerTo gotype goval

text \<open>The result is the error, if any, and the new value of the pointee. A nil pointer has an element of no
  kind. A field whose own mapping fails is skipped, but a struct field never fails.\<close>

definition MapToStruct :: "maplib \<Rightarrow> (string \<Rightarrow> gotype) \<Rightarrow> (string \<times> goval) list \<Rightarrow> dest \<Rightarrow> goerror option \<times> dest" where
  "MapToStruct M T m output =
     (case output of
        PointerTo (GStruct t fs) (VStruct t' vs) \<Rightarrow> (None, PointerTo (GStruct t fs) (VStruct t' (map_fields M T m fs vs)))
      | _ \<Rightarrow> (Some ErrBadDst, output))"

definition ToStruct :: "maplib \<Rightarrow> (string \<Rightarrow> gotype) \<Rightarrow> goval \<Rightarrow> dest \<Rightarrow> goerror option \<times> dest" where
  "ToStruct M T src dst =
     (case src of
        VNil \<Rightarrow> (Some ErrNilSource, dst)
      | VMap m \<Rightarrow> MapToStruct M T m dst
      | _ \<Rightarrow>
          (case dst of
             NotPointer \<Rightarrow> (Some ErrBadDst, dst)
           | NilPointer \<Rightarrow> (Some ErrPanic, dst)
           | PointerTo ty old \<Rightarrow>
               (case (case src of VPtr t p \<Rightarrow> p | _ \<Rightarrow> Some src) of
                  None \<Rightarrow> (Some ErrPanic, dst)
                | Some v \<Rightarrow> if assignable ty v then (None, PointerTo ty v) else (Some ErrIncompatible, dst))))"

section \<open>Conformance\<close>

text \<open>A value conforms to a type when it is of that type all the way down; what a \<^verbatim>\<open>gonum\<close> number holds
  is its own affair.\<close>

fun conforms :: "(string \<Rightarrow> gotype) \<Rightarrow> gotype \<Rightarrow> goval \<Rightarrow> bool"
  and conforms_fields :: "(string \<Rightarrow> gotype) \<Rightarrow> (string \<times> string \<times> bool \<times> gotype) list \<Rightarrow>
      (string \<times> string \<times> goval) list \<Rightarrow> bool" where
  "conforms T GAny v = True"
| "conforms T GBool v = has_type GBool v" | "conforms T GInt v = has_type GInt v"
| "conforms T GInt8 v = has_type GInt8 v" | "conforms T GInt16 v = has_type GInt16 v"
| "conforms T GInt32 v = has_type GInt32 v" | "conforms T GInt64 v = has_type GInt64 v"
| "conforms T GUint v = has_type GUint v" | "conforms T GUint8 v = has_type GUint8 v"
| "conforms T GUint16 v = has_type GUint16 v" | "conforms T GUint32 v = has_type GUint32 v"
| "conforms T GUint64 v = has_type GUint64 v" | "conforms T GFloat32 v = has_type GFloat32 v"
| "conforms T GFloat64 v = has_type GFloat64 v" | "conforms T GString v = has_type GString v"
| "conforms T GBytes v = has_type GBytes v" | "conforms T GMap v = has_type GMap v"
| "conforms T GSlice v = has_type GSlice v"
| "conforms T (GStruct t fs) v = (case v of VStruct t' vs \<Rightarrow> t = t' \<and> conforms_fields T fs vs | _ \<Rightarrow> False)"
| "conforms T (GPtr t) v =
     (case v of
        VPtr t' p \<Rightarrow> t = t' \<and> (case p of None \<Rightarrow> True | Some w \<Rightarrow> t = gonumNumber \<or> conforms T (T t) w)
      | _ \<Rightarrow> False)"
| "conforms T (GTSlice t) v = (case v of VTSlice t' vs \<Rightarrow> t = t' \<and> list_all (conforms T (T t)) vs | _ \<Rightarrow> False)"
| "conforms T (GArray t ty n) v =
     (case v of VArray t' vs \<Rightarrow> t = t' \<and> length vs = n \<and> list_all (conforms T ty) vs | _ \<Rightarrow> False)"
| "conforms_fields T [] [] = True"
| "conforms_fields T ((n, g, c, ty) # fs) ((n', g', v) # vs) =
     (n = n' \<and> g = g' \<and> conforms T ty v \<and> conforms_fields T fs vs)"
| "conforms_fields T [] (v # vs) = False"
| "conforms_fields T (f # fs) [] = False"

lemma conforms_zero_fields_aux:
  "list_all (\<lambda>(n, g, c, ty). conforms T ty (zero_val ty)) fs \<Longrightarrow> conforms_fields T fs (zero_fields fs)"
  by (induction fs) (auto simp: zero_fields_def)

lemma conforms_zero [simp]: "conforms T ty (zero_val ty)"
proof (induction ty)
  case (GStruct t fs)
  then have "conforms_fields T fs (zero_fields fs)"
    by (intro conforms_zero_fields_aux) (fastforce simp: list_all_iff)
  then show ?case
    by (simp add: zero_fields_def)
qed (auto simp: list_all_iff)

lemma conforms_zero_fields [simp]: "conforms_fields T fs (zero_fields fs)"
  by (rule conforms_zero_fields_aux) (simp add: list_all_iff)

lemma conforms_assigned: "plain raw \<Longrightarrow> assignable ty raw \<Longrightarrow> conforms T ty raw"
  by (cases ty) (auto simp: assignable_def split: goval.splits)

lemma conforms_SetInt:
  "ty \<in> {GInt, GInt8, GInt16, GInt32, GInt64} \<Longrightarrow> conforms T ty v \<Longrightarrow> conforms T ty (convertInt M ty v raw)"
  by (auto simp: convertInt_def split: option.splits)

lemma conforms_SetUint:
  "ty \<in> {GUint, GUint8, GUint16, GUint32, GUint64} \<Longrightarrow> conforms T ty v \<Longrightarrow> conforms T ty (convertUint M ty v raw)"
  by (auto simp: convertUint_def split: option.splits)

lemma conforms_SetFloat:
  "ty \<in> {GFloat32, GFloat64} \<Longrightarrow> conforms T ty v \<Longrightarrow> conforms T ty (convertFloat M ty v raw)"
  by (auto simp: convertFloat_def split: option.splits)

lemma conforms_scalars:
  "conforms T GString v \<Longrightarrow> conforms T GString (convertString v raw)"
  "conforms T GBool v \<Longrightarrow> conforms T GBool (convertBool v raw)"
  "conforms T GBytes v \<Longrightarrow> conforms T GBytes (convertBytes M v raw)"
  by (auto simp: convertString_def convertBool_def convertBytes_def split: goval.splits option.splits)

lemma conforms_convertArray:
  "conforms T (GArray t ety n) v \<Longrightarrow> conforms T (GArray t ety n) (convertArray M t ety n v raw)"
  by (auto simp: convertArray_def list_all_iff split: option.splits)

lemmas conforms_conversions =
  conforms_SetInt conforms_SetUint conforms_SetFloat conforms_scalars conforms_convertArray

lemma plain_get: "list_all (\<lambda>p. plain (snd p)) m \<Longrightarrow> gm_get m k = Some v \<Longrightarrow> plain v"
  by (induction m) (auto split: if_splits)

lemma mapper_conforms:
  "list_all (\<lambda>p. plain (snd p)) m \<Longrightarrow> conforms_fields T fs vs \<Longrightarrow> conforms_fields T fs (map_fields M T m fs vs)"
  "plain raw \<Longrightarrow> conforms T ty v \<Longrightarrow> conforms T ty (convert M T ty v raw)"
  "list_all plain items \<Longrightarrow> list_all (conforms T ety) (slice_items M T ety items)"
proof (induction M T m fs vs and M T ty v raw and M T ety items rule: map_fields_convert_slice_items.induct)
  case (1 M T m name tag can_set ty fs n g v vs)
  then show ?case
    by (auto split: option.splits dest: plain_get intro: conforms_assigned)
next
  case (3 M T ty v raw)
  show ?case
  proof (cases ty)
    case (GStruct t fs)
    with 3 show ?thesis
      by (cases raw; cases v) (auto simp: convert.simps)
  next
    case (GPtr t)
    show ?thesis
    proof (cases "T t")
      case (GStruct t' fs)
      with \<open>ty = GPtr t\<close> 3 show ?thesis
        by (cases raw) (auto simp: convert.simps split: option.splits)
    qed (use \<open>ty = GPtr t\<close> 3 in \<open>auto simp: convert.simps split: option.splits\<close>)
  next
    case (GTSlice t)
    with 3 show ?thesis
      by (cases raw) (auto simp: convert.simps)
  qed (use "3.prems" in \<open>simp_all only: convert.simps gotype.case conforms_conversions insert_iff simp_thms\<close>)
next
  case (5 M T ety item items)
  show ?case
  proof (cases "item = VNil \<or> assignable ety item")
    case True
    with 5 show ?thesis
      by (auto intro: conforms_assigned)
  next
    case False
    show ?thesis
    proof (cases ety)
      case (GStruct t fs)
      with False 5 show ?thesis
        by (cases item) auto
    next
      case (GPtr q)
      show ?thesis
      proof (cases "T q")
        case (GStruct t fs)
        with \<open>ety = GPtr q\<close> False 5 show ?thesis
          by (cases item) auto
      qed (use \<open>ety = GPtr q\<close> False 5 in simp_all)
    qed (use False 5 in simp_all)
  qed
qed auto

end
