(* ===== verification/MapperProps.thy ===== *)
theory MapperProps
  imports Mapper
begin

text \<open>
  What the mapper does to records that went through JSON: a struct survives, slices of numbers do
  not.
\<close>

section \<open>What JSON makes of a value\<close>

text \<open>
  The image of a Go value under encoding and decoding into \<^verbatim>\<open>any\<close>: numbers become \<^verbatim>\<open>float64\<close>, structs
  and pointers to them become maps under the names of their tags, typed slices become \<^verbatim>\<open>[]any\<close>.
\<close>

definition json_key :: "string \<Rightarrow> string \<Rightarrow> string" where
  "json_key name tag = (if tag = [] then name else tag)"

definition json_names :: "(string \<times> string \<times> 'a) list \<Rightarrow> string list" where
  "json_names fs = map (\<lambda>f. json_key (fst f) (fst (snd f))) fs"

fun jview :: "maplib \<Rightarrow> goval \<Rightarrow> goval" where
  "jview M (VInt w) = VFloat64 (ml_i64_f64 M w)" | "jview M (VInt8 w) = VFloat64 (ml_i64_f64 M (scast w))"
| "jview M (VInt16 w) = VFloat64 (ml_i64_f64 M (scast w))" | "jview M (VInt32 w) = VFloat64 (ml_i64_f64 M (scast w))"
| "jview M (VInt64 w) = VFloat64 (ml_i64_f64 M w)" | "jview M (VUint w) = VFloat64 (ml_u64_f64 M w)"
| "jview M (VUint8 w) = VFloat64 (ml_u64_f64 M (ucast w))" | "jview M (VUint16 w) = VFloat64 (ml_u64_f64 M (ucast w))"
| "jview M (VUint32 w) = VFloat64 (ml_u64_f64 M (ucast w))" | "jview M (VUint64 w) = VFloat64 (ml_u64_f64 M w)"
| "jview M (VStruct t fs) = VMap (map (\<lambda>(n, g, v). (json_key n g, jview M v)) fs)"
| "jview M (VPtr t p) = (case p of None \<Rightarrow> VNil | Some v \<Rightarrow> jview M v)"
| "jview M (VTSlice t vs) = VSlice (map (jview M) vs)"
| "jview M v = v"

text \<open>A tag that is a plain name: no options, and not the dash that hides a field.\<close>

definition tag_ok :: "string \<Rightarrow> bool" where
  "tag_ok tag \<longleftrightarrow> tag \<noteq> ''-'' \<and> CHR '','' \<notin> set tag"

lemma field_key_tag: "tag_ok tag \<Longrightarrow> field_key name tag = json_key name tag"
  by (auto simp: field_key_def json_key_def tag_ok_def intro!: takeWhile_eq_all_conv [THEN iffD2])

text \<open>
  The values that survive: integers that a \<^verbatim>\<open>float64\<close> holds exactly, strings, booleans, \<^verbatim>\<open>float64\<close>,
  structs of such fields with distinct names, pointers to such structs, and slices of strings,
  booleans, \<^verbatim>\<open>float64\<close>, structs and non-nil pointers to structs.
\<close>

definition int_exact :: "maplib \<Rightarrow> 64 word \<Rightarrow> bool" where
  "int_exact M w \<longleftrightarrow> ml_f64_i64 M (ml_i64_f64 M w) = w"

definition uint_exact :: "maplib \<Rightarrow> 64 word \<Rightarrow> bool" where
  "uint_exact M w \<longleftrightarrow> ml_f64_u64 M (ml_u64_f64 M w) = w"

fun is_struct :: "gotype \<Rightarrow> bool" where
  "is_struct (GStruct t fs) = True"
| "is_struct _ = False"

fun survives :: "maplib \<Rightarrow> (string \<Rightarrow> gotype) \<Rightarrow> gotype \<Rightarrow> goval \<Rightarrow> bool"
  and survive_fields :: "maplib \<Rightarrow> (string \<Rightarrow> gotype) \<Rightarrow> (string \<times> string \<times> bool \<times> gotype) list \<Rightarrow>
      (string \<times> string \<times> goval) list \<Rightarrow> bool" where
  "survives M T GAny v = False"
| "survives M T GBool v = has_type GBool v" | "survives M T GString v = has_type GString v"
| "survives M T GFloat64 v = has_type GFloat64 v"
| "survives M T GFloat32 v = False" | "survives M T GBytes v = False" | "survives M T GMap v = False"
| "survives M T GSlice v = False" | "survives M T (GArray t ty n) v = False"
| "survives M T GInt v = (case v of VInt w \<Rightarrow> int_exact M w | _ \<Rightarrow> False)"
| "survives M T GInt8 v = (case v of VInt8 w \<Rightarrow> int_exact M (scast w) | _ \<Rightarrow> False)"
| "survives M T GInt16 v = (case v of VInt16 w \<Rightarrow> int_exact M (scast w) | _ \<Rightarrow> False)"
| "survives M T GInt32 v = (case v of VInt32 w \<Rightarrow> int_exact M (scast w) | _ \<Rightarrow> False)"
| "survives M T GInt64 v = (case v of VInt64 w \<Rightarrow> int_exact M w | _ \<Rightarrow> False)"
| "survives M T GUint v = (case v of VUint w \<Rightarrow> uint_exact M w | _ \<Rightarrow> False)"
| "survives M T GUint8 v = (case v of VUint8 w \<Rightarrow> uint_exact M (ucast w) | _ \<Rightarrow> False)"
| "survives M T GUint16 v = (case v of VUint16 w \<Rightarrow> uint_exact M (ucast w) | _ \<Rightarrow> False)"
| "survives M T GUint32 v = (case v of VUint32 w \<Rightarrow> uint_exact M (ucast w) | _ \<Rightarrow> False)"
| "survives M T GUint64 v = (case v of VUint64 w \<Rightarrow> uint_exact M w | _ \<Rightarrow> False)"
| "survives M T (GStruct t fs) v =
     (case v of
        VStruct t' vs \<Rightarrow> t' = t \<and> survive_fields M T fs vs \<and> distinct (json_names fs)
      | _ \<Rightarrow> False)"
| "survives M T (GPtr t) v =
     (t \<noteq> gonumNumber \<and>
      (case v of
         VPtr t' p \<Rightarrow> t' = t \<and>
           (case p of None \<Rightarrow> True | Some w \<Rightarrow> is_struct (T t) \<and> survives M T (T t) w)
       | _ \<Rightarrow> False))"
| "survives M T (GTSlice t) v =
     (case v of
        VTSlice t' vs \<Rightarrow> t' = t \<and> list_all (survives M T (T t)) vs \<and>
          (case T t of
             GBool \<Rightarrow> True | GString \<Rightarrow> True | GFloat64 \<Rightarrow> True | GStruct s fs \<Rightarrow> True
           | GPtr p \<Rightarrow> list_all (\<lambda>v. v \<noteq> VPtr p None) vs
           | _ \<Rightarrow> False)
      | _ \<Rightarrow> False)"
| "survive_fields M T [] [] = True"
| "survive_fields M T ((n, g, c, ty) # fs) ((n', g', v) # vs) =
     (n = n' \<and> g = g' \<and> c \<and> tag_ok g \<and> survives M T ty v \<and> survive_fields M T fs vs)"
| "survive_fields M T [] (v # vs) = False"
| "survive_fields M T (f # fs) [] = False"

section \<open>The way back\<close>

text \<open>What one field receives from a raw value.\<close>

definition assign :: "maplib \<Rightarrow> (string \<Rightarrow> gotype) \<Rightarrow> gotype \<Rightarrow> goval \<Rightarrow> goval option \<Rightarrow> goval" where
  "assign M T ty v r =
     (case r of None \<Rightarrow> v
      | Some raw \<Rightarrow> if raw = VNil then v else if assignable ty raw then raw else convert M T ty v raw)"

lemma map_fields_assign:
  "map_fields M T m ((n, g, True, ty) # fs) ((n', g', v) # vs) =
     (n', g', assign M T ty v (gm_get m (field_key n g))) # map_fields M T m fs vs"
  by (simp add: assign_def)

lemma map_fields_Nil: "map_fields M T m [] vs = vs"
  by simp

text \<open>Looking up the fields of the image of a struct.\<close>

abbreviation restored :: "maplib \<Rightarrow> (string \<Rightarrow> gotype) \<Rightarrow> gotype \<Rightarrow> goval \<Rightarrow> bool" where
  "restored M T ty v \<equiv> assign M T ty (zero_val ty) (Some (jview M v)) = v"

abbreviation view_fields :: "maplib \<Rightarrow> (string \<times> string \<times> goval) list \<Rightarrow> (string \<times> goval) list" where
  "view_fields M vs \<equiv> map (\<lambda>(n, g, v). (json_key n g, jview M v)) vs"

lemma view_keys: "map fst (view_fields M vs) = json_names vs"
  by (induction vs) (auto simp: json_names_def)

lemma survive_names: "survive_fields M T fs vs \<Longrightarrow> json_names vs = json_names fs"
proof (induction fs arbitrary: vs)
  case Nil
  then show ?case by (cases vs) (auto simp: json_names_def)
next
  case (Cons f fs)
  then show ?case by (cases f; cases vs) (auto simp: json_names_def)
qed

lemma map_fields_restores:
  assumes "survive_fields M T fs vs" "list_all2 (\<lambda>(n, g, c, ty) (n', g', v). restored M T ty v) fs vs"
    and "\<And>n g v. (n, g, v) \<in> set vs \<Longrightarrow> gm_get m (json_key n g) = Some (jview M v)"
  shows "map_fields M T m fs (zero_fields fs) = vs"
  using assms
proof (induction fs arbitrary: vs)
  case Nil
  then show ?case by (cases vs) (simp_all add: zero_fields_def)
next
  case (Cons f fs)
  obtain n g c ty where f: "f = (n, g, c, ty)" by (cases f)
  with Cons.prems(1) obtain v vs' where vs: "vs = (n, g, v) # vs'" and ok: "c" "tag_ok g" "survive_fields M T fs vs'"
    by (cases vs) auto
  have "map_fields M T m fs (zero_fields fs) = vs'"
    using Cons.prems(2,3) ok f vs by (intro Cons.IH) auto
  moreover have "restored M T ty v" "gm_get m (field_key n g) = Some (jview M v)"
    using Cons.prems(2,3) f vs ok by (simp_all add: field_key_tag)
  ultimately show ?case
    using f vs ok by (simp add: zero_fields_def map_fields_assign del: map_fields.simps)
qed

lemma view_restores:
  assumes "survive_fields M T fs vs" "distinct (json_names fs)"
    and "list_all2 (\<lambda>(n, g, c, ty) (n', g', v). restored M T ty v) fs vs"
  shows "map_fields M T (view_fields M vs) fs (zero_fields fs) = vs"
proof (rule map_fields_restores [OF assms(1,3)])
  fix n g v
  assume "(n, g, v) \<in> set vs"
  then have "(json_key n g, jview M v) \<in> set (view_fields M vs)"
    by force
  moreover have "distinct (map fst (view_fields M vs))"
    using assms(1,2) view_keys survive_names by metis
  ultimately show "gm_get (view_fields M vs) (json_key n g) = Some (jview M v)"
    by simp
qed

lemma ucast_scast_id [simp]:
  "ucast (scast (w :: 8 word) :: 64 word) = w" "ucast (scast (w16 :: 16 word) :: 64 word) = w16"
  "ucast (scast (w32 :: 32 word) :: 64 word) = w32"
  by (rule bit_word_eqI; simp add: bit_simps)+

lemma ucast_ucast_id [simp]:
  "ucast (ucast (w :: 8 word) :: 64 word) = w" "ucast (ucast (w16 :: 16 word) :: 64 word) = w16"
  "ucast (ucast (w32 :: 32 word) :: 64 word) = w32"
  by (rule bit_word_eqI; simp add: bit_simps)+

lemmas restore_simps = assign_def assignable_def convert.simps convertInt_def convertUint_def int_exact_def uint_exact_def

lemma slice_item:
  assumes "survives M T ety v" "restored M T ety v" "jview M v \<noteq> VNil"
    and "ety \<in> {GBool, GString, GFloat64} \<or> is_struct ety \<or> (\<exists>q. ety = GPtr q)"
  shows "slice_items M T ety (jview M v # items) = v # slice_items M T ety items"
proof (cases ety)
  case (GStruct t fs)
  with assms show ?thesis
    by (auto simp: restore_simps zero_fields_def split: goval.splits)
next
  case (GPtr q)
  with assms obtain w where w: "v = VPtr q (Some w)" "is_struct (T q)" "survives M T (T q) w" "q \<noteq> gonumNumber"
    by (auto split: goval.splits option.splits)
  then obtain s fs vs where "T q = GStruct s fs" "w = VStruct s vs"
    by (cases "T q") (auto split: goval.splits)
  with GPtr w assms(2) show ?thesis
    by (simp add: restore_simps)
qed (use assms in \<open>auto simp: restore_simps split: goval.splits\<close>)

lemma slice_restores:
  assumes "list_all (\<lambda>v. survives M T ety v \<and> restored M T ety v \<and> jview M v \<noteq> VNil) vs"
    and "ety \<in> {GBool, GString, GFloat64} \<or> is_struct ety \<or> (\<exists>q. ety = GPtr q)"
  shows "slice_items M T ety (map (jview M) vs) = vs"
  using assms(1)
proof (induction vs)
  case (Cons v vs)
  then have "survives M T ety v" "restored M T ety v" "jview M v \<noteq> VNil"
    by auto
  then have "slice_items M T ety (jview M v # map (jview M) vs) = v # slice_items M T ety (map (jview M) vs)"
    using assms(2) by (rule slice_item)
  with Cons show ?case
    by (simp only: list.map list.pred_inject)
qed simp

lemma survives_struct: "survives M T ty v \<Longrightarrow> is_struct ty \<Longrightarrow> \<exists>s fs vs. ty = GStruct s fs \<and> v = VStruct s vs"
  by (cases ty) (auto split: goval.splits)

lemma survives_ptr:
  "survives M T (GPtr t) v \<Longrightarrow> v = VPtr t None \<or>
     (\<exists>s fs vs. t \<noteq> gonumNumber \<and> T t = GStruct s fs \<and> v = VPtr t (Some (VStruct s vs)) \<and> survives M T (T t) (VStruct s vs))"
  using survives_struct by (fastforce split: goval.splits option.splits)

lemma survives_not_nil:
  "survives M T ety v \<Longrightarrow> ety \<in> {GBool, GString, GFloat64} \<or> is_struct ety \<or> ety = GPtr q \<and> v \<noteq> VPtr q None \<Longrightarrow>
     jview M v \<noteq> VNil"
  using survives_struct [of M T ety v] survives_ptr [of M T q v] by (auto split: goval.splits)

lemma restores:
  "survives M T ty v \<Longrightarrow> restored M T ty v"
  "survive_fields M T fs vs \<Longrightarrow> list_all2 (\<lambda>(n, g, c, ty) (n', g', v). restored M T ty v) fs vs"
proof (induction M T ty v and M T fs vs rule: survives_survive_fields.induct)
  case (20 M T t fs v)
  then obtain vs where v: "v = VStruct t vs" "survive_fields M T fs vs" "distinct (json_names fs)"
    by (auto split: goval.splits)
  with 20 view_restores have "map_fields M T (view_fields M vs) fs (zero_fields fs) = vs"
    by blast
  with v show ?case
    by (simp add: restore_simps zero_fields_def)
next
  case (21 M T t v)
  show ?case
    using survives_ptr [OF "21.prems"]
  proof (elim disjE exE conjE)
    fix s fs vs
    assume v: "t \<noteq> gonumNumber" "T t = GStruct s fs" "v = VPtr t (Some (VStruct s vs))" "survives M T (T t) (VStruct s vs)"
    have "restored M T (T t) (VStruct s vs)"
      by (rule "21.IH") (use v in simp_all)
    with v show ?thesis
      by (simp add: restore_simps zero_fields_def)
  qed (simp add: restore_simps)
next
  case (22 M T t v)
  then obtain vs where v: "v = VTSlice t vs" "list_all (survives M T (T t)) vs"
    "T t \<in> {GBool, GString, GFloat64} \<or> is_struct (T t) \<or> (\<exists>q. T t = GPtr q \<and> list_all (\<lambda>v. v \<noteq> VPtr q None) vs)"
    by (cases "T t") (auto split: goval.splits)
  have "survives M T (T t) w \<and> restored M T (T t) w \<and> jview M w \<noteq> VNil" if w: "w \<in> set vs" for w
  proof -
    have s: "survives M T (T t) w"
      using v(2) w by (simp add: list_all_iff)
    moreover have "restored M T (T t) w"
      by (rule "22.IH") (use v(1) w s in simp_all)
    moreover have "\<exists>q. T t \<in> {GBool, GString, GFloat64} \<or> is_struct (T t) \<or> T t = GPtr q \<and> w \<noteq> VPtr q None"
      using v(3) w by (auto simp: list_all_iff)
    ultimately show ?thesis
      using survives_not_nil by blast
  qed
  then have "list_all (\<lambda>v. survives M T (T t) v \<and> restored M T (T t) v \<and> jview M v \<noteq> VNil) vs"
    by (simp only: list_all_iff) blast
  then have "slice_items M T (T t) (map (jview M) vs) = vs"
    using v(3) by (intro slice_restores) auto
  with v(1) show ?case
    by (simp add: restore_simps)
qed (auto simp: restore_simps split: goval.splits)

text \<open>Conversions that keep the bits, for closed examples.\<close>

definition sample_ml :: maplib where
  "sample_ml =
     \<lparr>ml_f32_i64 = ucast, ml_f64_i64 = (\<lambda>w. w), ml_f32_u64 = ucast, ml_f64_u64 = (\<lambda>w. w), ml_f64_u8 = ucast,
      ml_f32_f64 = ucast, ml_f64_f32 = ucast, ml_i64_f64 = (\<lambda>w. w), ml_u64_f64 = (\<lambda>w. w),
      gonum_New = (\<lambda>_. None), gonum_FromFloat64 = (\<lambda>_. None), gonum_FromInt = (\<lambda>_. None),
      gonum_FromInt64 = (\<lambda>_. None), gonum_FromUint64 = (\<lambda>_. None)\<rparr>"

section \<open>Integers\<close>

text \<open>The number an integer value stands for, and the width and range of an integer type.\<close>

fun int_value :: "goval \<Rightarrow> int option" where
  "int_value (VInt w) = Some (sint w)" | "int_value (VInt8 w) = Some (sint w)"
| "int_value (VInt16 w) = Some (sint w)" | "int_value (VInt32 w) = Some (sint w)"
| "int_value (VInt64 w) = Some (sint w)" | "int_value (VUint w) = Some (uint w)"
| "int_value (VUint8 w) = Some (uint w)" | "int_value (VUint16 w) = Some (uint w)"
| "int_value (VUint32 w) = Some (uint w)" | "int_value (VUint64 w) = Some (uint w)"
| "int_value _ = None"

fun int_bits :: "gotype \<Rightarrow> nat" where
  "int_bits GInt8 = 8" | "int_bits GUint8 = 8" | "int_bits GInt16 = 16" | "int_bits GUint16 = 16"
| "int_bits GInt32 = 32" | "int_bits GUint32 = 32" | "int_bits _ = 64"

definition signed_type :: "gotype \<Rightarrow> bool" where
  "signed_type ty \<longleftrightarrow> ty \<in> {GInt, GInt8, GInt16, GInt32, GInt64}"

definition unsigned_type :: "gotype \<Rightarrow> bool" where
  "unsigned_type ty \<longleftrightarrow> ty \<in> {GUint, GUint8, GUint16, GUint32, GUint64}"

definition in_range :: "gotype \<Rightarrow> int \<Rightarrow> bool" where
  "in_range ty z \<longleftrightarrow>
     (if signed_type ty then - (2 ^ (int_bits ty - 1)) \<le> z \<and> z < 2 ^ (int_bits ty - 1)
      else 0 \<le> z \<and> z < 2 ^ int_bits ty)"

lemma int64_of_value: "int_value raw = Some z \<Longrightarrow> int64_of M raw = Some (word_of_int z)"
  by (cases raw) (auto simp: word_of_int_uint scast_eq ucast_eq)

lemma uint64_of_value: "int_value raw = Some z \<Longrightarrow> uint64_of M raw = Some (word_of_int z)"
  by (cases raw) (auto simp: word_of_int_uint scast_eq ucast_eq)

lemma ucast_word_of_int:
  "ucast (word_of_int z :: 64 word) = (word_of_int z :: 8 word)"
  "ucast (word_of_int z :: 64 word) = (word_of_int z :: 16 word)"
  "ucast (word_of_int z :: 64 word) = (word_of_int z :: 32 word)"
  by (rule bit_word_eqI; simp add: bit_simps)+

lemma sint_word_of_int_mod: "sint (word_of_int z :: 'a::len word) mod 2 ^ LENGTH('a) = z mod 2 ^ LENGTH('a)"
  by (simp add: sint_sbintrunc' take_bit_signed_take_bit flip: take_bit_eq_mod)

lemma sint_word_of_int_range:
  "- (2 ^ (LENGTH('a) - 1)) \<le> z \<Longrightarrow> z < 2 ^ (LENGTH('a) - 1) \<Longrightarrow> sint (word_of_int z :: 'a::len word) = z"
  by (simp add: sint_sbintrunc' signed_take_bit_int_eq_self)

lemmas narrow_mod = sint_word_of_int_mod [where 'a = 8, simplified] sint_word_of_int_mod [where 'a = 16, simplified]
  sint_word_of_int_mod [where 'a = 32, simplified] sint_word_of_int_mod [where 'a = 64, simplified]

lemmas narrow_range = sint_word_of_int_range [where 'a = 8, simplified] sint_word_of_int_range [where 'a = 16, simplified]
  sint_word_of_int_range [where 'a = 32, simplified] sint_word_of_int_range [where 'a = 64, simplified]

text \<open>C30: an integer stored into an integer field of any width keeps its value modulo two to the width, and its
  value itself whenever that is in the range of the field: narrowing wraps silently.\<close>
theorem integer_field_wraps:
  assumes "int_value raw = Some z"
  shows "(signed_type ty \<longrightarrow> (\<exists>z'. int_value (convertInt M ty old raw) = Some z' \<and>
        z' mod 2 ^ int_bits ty = z mod 2 ^ int_bits ty \<and> (in_range ty z \<longrightarrow> z' = z))) \<and>
     (unsigned_type ty \<longrightarrow> (\<exists>z'. int_value (convertUint M ty old raw) = Some z' \<and>
        z' = z mod 2 ^ int_bits ty \<and> (in_range ty z \<longrightarrow> z' = z)))"
proof (intro conjI impI)
  assume "signed_type ty"
  then show "\<exists>z'. int_value (convertInt M ty old raw) = Some z' \<and>
      z' mod 2 ^ int_bits ty = z mod 2 ^ int_bits ty \<and> (in_range ty z \<longrightarrow> z' = z)"
    using int64_of_value [OF assms, of M] unfolding signed_type_def insert_iff empty_iff
    by (elim disjE FalseE)
      (simp_all add: convertInt_def in_range_def signed_type_def ucast_word_of_int narrow_mod narrow_range)
next
  assume "unsigned_type ty"
  then show "\<exists>z'. int_value (convertUint M ty old raw) = Some z' \<and> z' = z mod 2 ^ int_bits ty \<and> (in_range ty z \<longrightarrow> z' = z)"
    using uint64_of_value [OF assms, of M] unfolding unsigned_type_def insert_iff empty_iff
    by (elim disjE FalseE)
      (simp_all add: convertUint_def in_range_def signed_type_def ucast_word_of_int uint_word_of_int)
qed

text \<open>300 read into an \<^verbatim>\<open>int8\<close> is 44.\<close>

theorem integer_field_wraps_witness:
  "\<exists>z'. int_value (convertInt sample_ml GInt8 (VInt8 0) (VInt64 300)) = Some z' \<and> z' mod 256 = 44"
  using integer_field_wraps [of "VInt64 300" 300 GInt8 sample_ml "VInt8 0"] by (auto simp: signed_type_def)


section \<open>What does not survive\<close>

text \<open>Base64 with padding, which is how JSON writes a \<^verbatim>\<open>[]byte\<close>.\<close>

definition b64_char :: "nat \<Rightarrow> char" where
  "b64_char n = ''ABCDEFGHIJKLMNOPQRSTUVWXYZabcdefghijklmnopqrstuvwxyz0123456789+/'' ! n"

fun base64 :: "bytes \<Rightarrow> string" where
  "base64 [] = []"
| "base64 [a] = [b64_char (unat a div 4), b64_char (unat a mod 4 * 16), CHR ''='', CHR ''='']"
| "base64 [a, b] =
     [b64_char (unat a div 4), b64_char (unat a mod 4 * 16 + unat b div 16), b64_char (unat b mod 16 * 4), CHR ''='']"
| "base64 (a # b # c # bs) =
     [b64_char (unat a div 4), b64_char (unat a mod 4 * 16 + unat b div 16),
      b64_char (unat b mod 16 * 4 + unat c div 64), b64_char (unat c mod 64)] @ base64 bs"

lemma length_base64: "b \<noteq> [] \<Longrightarrow> length b < length (base64 b)"
proof (induction b rule: base64.induct)
  case (4 a b c bs)
  then show ?case by (cases "bs = []") auto
qed auto

lemma number_items_dropped:
  "ety \<in> {GInt, GInt8, GInt16, GInt32, GInt64, GUint, GUint16, GUint32, GUint64} \<Longrightarrow>
     list_all (has_type ety) vs \<Longrightarrow> slice_items M T ety (map (jview M) vs) = []"
  by (induction vs) (auto simp: assignable_def split: goval.splits)

text \<open>C29: a reload corrupts two kinds of fields without an error: a slice of integers comes back empty, because
  the \<^verbatim>\<open>float64\<close> elements cannot be assigned and are skipped, and a non-empty \<^verbatim>\<open>[]byte\<close> comes back as
  the characters of its base64 encoding.\<close>
theorem reload_corrupts_fields:
  assumes "T t \<in> {GInt, GInt8, GInt16, GInt32, GInt64, GUint, GUint16, GUint32, GUint64}"
    and "list_all (has_type (T t)) vs" "b \<noteq> []"
  shows "MapToStruct M T [(''Ns'', jview M (VTSlice t vs)), (''Bs'', VString (base64 b))]
       (PointerTo (GStruct s [(''Ns'', [], True, GTSlice t), (''Bs'', [], True, GBytes)])
         (VStruct s [(''Ns'', [], VTSlice t vs), (''Bs'', [], VBytes b)])) =
     (None, PointerTo (GStruct s [(''Ns'', [], True, GTSlice t), (''Bs'', [], True, GBytes)])
         (VStruct s [(''Ns'', [], VTSlice t []), (''Bs'', [], VBytes (bytes_of (base64 b)))])) \<and>
     bytes_of (base64 b) \<noteq> b"
proof -
  have "length (bytes_of (base64 b)) \<noteq> length b"
    using length_base64 [OF assms(3)] by simp
  then have "bytes_of (base64 b) \<noteq> b"
    by metis
  then show ?thesis
    using number_items_dropped [OF assms(1,2)]
    by (simp add: MapToStruct_def field_key_def assignable_def convert.simps convertBytes_def)
qed

theorem reload_corrupts_fields_witness:
  "bytes_of (base64 [1, 2, 3]) \<noteq> [1, 2, 3] \<and>
   snd (MapToStruct sample_ml (\<lambda>_. GInt) [(''Ns'', VSlice [VFloat64 (ml_i64_f64 sample_ml 7)]), (''Bs'', VString (base64 [1, 2, 3]))]
       (PointerTo (GStruct ''S'' [(''Ns'', [], True, GTSlice ''int''), (''Bs'', [], True, GBytes)])
         (VStruct ''S'' [(''Ns'', [], VTSlice ''int'' [VInt 7]), (''Bs'', [], VBytes [1, 2, 3])]))) =
     PointerTo (GStruct ''S'' [(''Ns'', [], True, GTSlice ''int''), (''Bs'', [], True, GBytes)])
         (VStruct ''S'' [(''Ns'', [], VTSlice ''int'' []), (''Bs'', [], VBytes (bytes_of (base64 [1, 2, 3])))])"
  using reload_corrupts_fields [of "\<lambda>_. GInt" "''int''" "[VInt 7]" "[1, 2, 3]" sample_ml "''S''"] by simp

end
