(* ===== verification/DbRead.thy ===== *)
theory DbRead
  imports MapperProps SystemProps
begin

text \<open>
  Reading into a variable of the caller, \<^verbatim>\<open>database.go\<close>: the conversion \<^verbatim>\<open>to\<close>, and \<^verbatim>\<open>Read\<close> and \<^verbatim>\<open>ReadBatch\<close>
  with their destination.
\<close>

section \<open>Kinds\<close>

datatype gokind =
    KInvalid | KInterface | KBool
  | KInt | KInt8 | KInt16 | KInt32 | KInt64
  | KUint | KUint8 | KUint16 | KUint32 | KUint64
  | KFloat32 | KFloat64 | KString | KSlice | KMap | KArray | KStruct | KPointer

fun type_kind :: "gotype \<Rightarrow> gokind" where
  "type_kind GAny = KInterface" | "type_kind GBool = KBool"
| "type_kind GInt = KInt" | "type_kind GInt8 = KInt8" | "type_kind GInt16 = KInt16"
| "type_kind GInt32 = KInt32" | "type_kind GInt64 = KInt64"
| "type_kind GUint = KUint" | "type_kind GUint8 = KUint8" | "type_kind GUint16 = KUint16"
| "type_kind GUint32 = KUint32" | "type_kind GUint64 = KUint64"
| "type_kind GFloat32 = KFloat32" | "type_kind GFloat64 = KFloat64"
| "type_kind GString = KString" | "type_kind GBytes = KSlice" | "type_kind GMap = KMap"
| "type_kind GSlice = KSlice" | "type_kind (GTSlice t) = KSlice" | "type_kind (GArray t ty n) = KArray"
| "type_kind (GStruct t fs) = KStruct" | "type_kind (GPtr t) = KPointer"

fun val_kind :: "goval \<Rightarrow> gokind" where
  "val_kind VNil = KInvalid" | "val_kind (VBool b) = KBool"
| "val_kind (VInt w) = KInt" | "val_kind (VInt8 w8) = KInt8" | "val_kind (VInt16 w16) = KInt16"
| "val_kind (VInt32 w32) = KInt32" | "val_kind (VInt64 w) = KInt64"
| "val_kind (VUint w) = KUint" | "val_kind (VUint8 w8) = KUint8" | "val_kind (VUint16 w16) = KUint16"
| "val_kind (VUint32 w32) = KUint32" | "val_kind (VUint64 w) = KUint64"
| "val_kind (VFloat32 w32) = KFloat32" | "val_kind (VFloat64 w) = KFloat64"
| "val_kind (VString s) = KString" | "val_kind (VBytes b) = KSlice" | "val_kind (VMap m) = KMap"
| "val_kind (VSlice es) = KSlice" | "val_kind (VTSlice t es) = KSlice" | "val_kind (VArray t es) = KArray"
| "val_kind (VStruct t fs) = KStruct" | "val_kind (VPtr t p) = KPointer"

section \<open>to\<close>

text \<open>The second, third and fourth case. \<^verbatim>\<open>Set\<close> panics when the kinds agree but the types do not.\<close>

definition to_other :: "maplib \<Rightarrow> (string \<Rightarrow> gotype) \<Rightarrow> goval \<Rightarrow> gotype \<Rightarrow> goval \<Rightarrow> goerror option \<times> dest" where
  "to_other M T src ty old =
     (case src of
        VMap m \<Rightarrow> MapToStruct M T m (PointerTo ty old)
      | _ \<Rightarrow>
          if type_kind ty = val_kind src then
            (if assignable ty src then (None, PointerTo ty src) else (Some ErrPanic, PointerTo ty old))
          else ToStruct M T src (PointerTo ty old))"

text \<open>In the first case a copy that came back as nil has no type: a panic.\<close>

definition to :: "golib \<Rightarrow> maplib \<Rightarrow> (string \<Rightarrow> gotype) \<Rightarrow> goval \<Rightarrow> dest \<Rightarrow> goerror option \<times> dest" where
  "to L M T src dst =
     (if src = VNil then (Some ErrNilSource, dst)
      else (case dst of
              PointerTo ty old \<Rightarrow>
                if has_type ty src then
                  (let copied = deepCopyValue L src in
                   if copied = VNil then (Some ErrPanic, dst)
                   else if has_type ty copied then (None, PointerTo ty copied)
                   else to_other M T src ty old)
                else to_other M T src ty old
            | _ \<Rightarrow> (Some ErrBadDst, dst)))"

section \<open>Read and ReadBatch\<close>

definition Read_into :: "golib \<Rightarrow> maplib \<Rightarrow> (string \<Rightarrow> gotype) \<Rightarrow> 64 word \<Rightarrow> string \<Rightarrow> string \<Rightarrow> dest \<Rightarrow> 'w db \<Rightarrow>
    goerror option \<times> dest \<times> 'w db" where
  "Read_into L M T elapsed table key dst db =
     (case Read elapsed table key db of
        (Inl err, db') \<Rightarrow> (Some err, dst, db')
      | (Inr v, db') \<Rightarrow> (case to L M T v dst of (err, dst') \<Rightarrow> (err, dst', db')))"

text \<open>The element type of a slice type.\<close>

fun elem_type :: "(string \<Rightarrow> gotype) \<Rightarrow> gotype \<Rightarrow> gotype option" where
  "elem_type T GBytes = Some GUint8"
| "elem_type T GSlice = Some GAny"
| "elem_type T (GTSlice t) = Some (T t)"
| "elem_type T _ = None"

definition new_elem :: "golib \<Rightarrow> maplib \<Rightarrow> (string \<Rightarrow> gotype) \<Rightarrow> gotype \<Rightarrow> goval \<Rightarrow> goval res" where
  "new_elem L M T ty src =
     (case to L M T src (PointerTo ty (zero_val ty)) of
        (Some err, _) \<Rightarrow> Inl err
      | (None, PointerTo _ v) \<Rightarrow> Inr v
      | (None, _) \<Rightarrow> Inl ErrBadDst)"

definition batch_elem :: "golib \<Rightarrow> maplib \<Rightarrow> (string \<Rightarrow> gotype) \<Rightarrow> gotype \<Rightarrow> goval \<Rightarrow> goval res" where
  "batch_elem L M T ety d =
     (let src = deepCopyValue L d in
      case ety of
        GAny \<Rightarrow> Inr src
      | GPtr t \<Rightarrow> (case new_elem L M T (T t) src of Inl err \<Rightarrow> Inl err | Inr v \<Rightarrow> Inr (VPtr t (Some v)))
      | _ \<Rightarrow> new_elem L M T ety src)"

fun batch_elems :: "golib \<Rightarrow> maplib \<Rightarrow> (string \<Rightarrow> gotype) \<Rightarrow> gotype \<Rightarrow> goval list \<Rightarrow> goval list res" where
  "batch_elems L M T ety [] = Inr []"
| "batch_elems L M T ety (d # ds) =
     (case batch_elem L M T ety d of
        Inl err \<Rightarrow> Inl err
      | Inr v \<Rightarrow> (case batch_elems L M T ety ds of Inl err \<Rightarrow> Inl err | Inr vs \<Rightarrow> Inr (v # vs)))"

text \<open>A slice of a slice type; the elements of a \<^verbatim>\<open>[]byte\<close> are bytes.\<close>

fun mk_slice :: "gotype \<Rightarrow> goval list \<Rightarrow> goval" where
  "mk_slice (GTSlice t) vs = VTSlice t vs"
| "mk_slice GBytes vs = VBytes (map (\<lambda>v. case v of VUint8 w \<Rightarrow> w | _ \<Rightarrow> 0) vs)"
| "mk_slice _ vs = VSlice vs"

definition ReadBatch_into :: "golib \<Rightarrow> maplib \<Rightarrow> (string \<Rightarrow> gotype) \<Rightarrow> string \<Rightarrow> dest \<Rightarrow> 'w db \<Rightarrow>
    goerror option \<times> dest \<times> 'w db" where
  "ReadBatch_into L M T table dst db =
     (if db_closed db then (Some ErrDatabaseClosed, dst, db)
      else (case gm_get (db_data db) table of
              None \<Rightarrow> (Some (ErrTableMissing table), dst, db)
            | Some t \<Rightarrow>
                (case dst of
                   PointerTo ty old \<Rightarrow>
                     (case elem_type T ty of
                        None \<Rightarrow> (Some ErrBadDst, dst, db)
                      | Some ety \<Rightarrow>
                          (case batch_elems L M T ety (map snd t) of
                             Inl err \<Rightarrow> (Some err, dst, db)
                           | Inr vs \<Rightarrow> (None, PointerTo ty (mk_slice ty vs), on_metrics IncrementReads db)))
                 | _ \<Rightarrow> (Some ErrBadDst, dst, db))))"

section \<open>Properties\<close>

definition has_row :: "string \<Rightarrow> string \<Rightarrow> goval \<Rightarrow> 'w db \<Rightarrow> bool" where
  "has_row table key v db \<longleftrightarrow> \<not> db_closed db \<and> rows db table key = Some v"

lemma Read_into_row:
  assumes "has_row table key v db"
  shows "Read_into L M T elapsed table key dst db =
     (fst (to L M T v dst), snd (to L M T v dst),
      on_metrics (RecordReadLatency elapsed) (on_metrics IncrementReads db))"
  using assms
  by (auto simp: has_row_def rows_def row_key_def Read_into_def Read_def view_def Let_def split: option.splits prod.splits)

lemma MapToStruct_struct: "MapToStruct M T m (PointerTo (GStruct t fs) (VStruct t vs)) =
    (None, PointerTo (GStruct t fs) (VStruct t (map_fields M T m fs vs)))"
  by (simp add: MapToStruct_def)

text \<open>A small world for closed examples: a type with two fields.\<close>

definition user_fields :: "(string \<times> string \<times> bool \<times> gotype) list" where
  "user_fields = [(''Name'', ''name'', True, GString), (''Age'', [], True, GInt8)]"

definition user_type :: "string \<Rightarrow> gotype" where
  "user_type t = (if t = ''User'' then GStruct ''User'' user_fields else GInt)"

definition user :: goval where
  "user = VStruct ''User'' [(''Name'', ''name'', VString ''ann''), (''Age'', [], VInt8 30)]"

text \<open>A JSON library that knows the image of one value, and a database with one record.\<close>

definition json_of :: "goval \<Rightarrow> golib" where
  "json_of v = sample_lib\<lparr>json_marshal := (\<lambda>_. Some [1]), json_unmarshal := (\<lambda>_. Some (jview sample_ml v))\<rparr>"

definition one_row :: "goval \<Rightarrow> unit db" where
  "one_row v = (sample_db None)\<lparr>db_data := [(''t'', [(''k'', v)])]\<rparr>"

lemma has_one_row [simp]: "has_row ''t'' ''k'' v (one_row v)"
  by (simp add: has_row_def one_row_def sample_db_def rows_def row_key_def view_def)

lemma json_of_copy [simp]: "json_copy (json_of v) w = jview sample_ml v"
  by (simp add: json_copy_def json_of_def)

text \<open>C14: a struct that \<open>survives\<close> reads back unchanged: right after it was written, when the table holds the
  struct itself, and after a reload, when it holds what JSON made of it. Its fields are exported, their
  tags are plain names without options, the names are distinct, and each is an integer of any kind that
  a \<^verbatim>\<open>float64\<close> holds exactly, a string, a boolean, a \<^verbatim>\<open>float64\<close>, again such a struct, a pointer to one or a
  nil pointer (of a type other than \<^verbatim>\<open>gonum.Number\<close>), or a slice of strings, booleans, \<^verbatim>\<open>float64\<close>s, such structs or non-nil pointers to them. No
  field is a \<^verbatim>\<open>float32\<close>, a map, an array, bytes, \<^verbatim>\<open>any\<close> or a slice of integers.\<close>
theorem struct_reads_back:
  assumes "survives M T (GStruct t fs) (VStruct t vs)"
    and "json_copy L (VStruct t vs) = jview M (VStruct t vs)"
    and "has_row table key (VStruct t vs) db" "has_row table key (jview M (VStruct t vs)) db'"
  shows "(\<exists>dbr. Read_into L M T elapsed table key (PointerTo (GStruct t fs) (zero_val (GStruct t fs))) db =
        (None, PointerTo (GStruct t fs) (VStruct t vs), dbr)) \<and>
     (\<exists>dbr. Read_into L M T elapsed table key (PointerTo (GStruct t fs) (zero_val (GStruct t fs))) db' =
        (None, PointerTo (GStruct t fs) (VStruct t vs), dbr))"
proof -
  have "to L M T (VStruct t vs) (PointerTo (GStruct t fs) old) = (None, PointerTo (GStruct t fs) (VStruct t vs))" for old
    using assms(2) by (simp add: to_def to_other_def assignable_def)
  moreover have "map_fields M T (view_fields M vs) fs (zero_fields fs) = vs"
    using restores(1) [OF assms(1)] by (simp add: restore_simps zero_fields_def)
  then have "to L M T (jview M (VStruct t vs)) (PointerTo (GStruct t fs) (zero_val (GStruct t fs))) =
      (None, PointerTo (GStruct t fs) (VStruct t vs))"
    by (simp add: to_def to_other_def MapToStruct_struct zero_fields_def)
  ultimately show ?thesis
    using Read_into_row [OF assms(3)] Read_into_row [OF assms(4)] by simp
qed

theorem struct_reads_back_witness:
  "\<exists>dbr. Read_into (json_of user) sample_ml user_type 0 ''t'' ''k'' (PointerTo (user_type ''User'') (zero_val (user_type ''User'')))
     (one_row (jview sample_ml user)) = (None, PointerTo (user_type ''User'') user, dbr)"
  using struct_reads_back [of sample_ml user_type "''User''" user_fields
      "[(''Name'', ''name'', VString ''ann''), (''Age'', [], VInt8 30)]" "json_of user" "''t''" "''k''"
      "one_row user" "one_row (jview sample_ml user)" 0]
  by (simp add: user_def [symmetric] user_type_def has_one_row [of user] has_one_row [of "jview sample_ml user"])
    (simp add: user_fields_def user_def sample_ml_def int_exact_def tag_ok_def json_names_def json_key_def)

text \<open>C31: a slice of a type other than \<^verbatim>\<open>any\<close> reads back right after it was written; after a reload the table
  holds a \<^verbatim>\<open>[]any\<close>, whose kind is the same and whose type is not, and the same read panics.\<close>
theorem slice_read_panics_after_reload:
  assumes "json_copy L (VTSlice t xs) = jview M (VTSlice t xs)"
    and "has_row table key (VTSlice t xs) db" "has_row table key (jview M (VTSlice t xs)) db'"
  shows "(\<exists>dbr. Read_into L M T elapsed table key (PointerTo (GTSlice t) old) db =
        (None, PointerTo (GTSlice t) (VTSlice t xs), dbr)) \<and>
     (\<exists>dbr. Read_into L M T elapsed table key (PointerTo (GTSlice t) old) db' =
        (Some ErrPanic, PointerTo (GTSlice t) old, dbr))"
  using assms(1) Read_into_row [OF assms(2)] Read_into_row [OF assms(3)]
  by (simp add: to_def to_other_def assignable_def)

theorem slice_read_panics_after_reload_witness:
  "\<exists>dbr. Read_into (json_of (VTSlice ''string'' [VString ''a''])) sample_ml user_type 0 ''t'' ''k''
     (PointerTo (GTSlice ''string'') (VTSlice ''string'' [])) (one_row (VSlice [VString ''a''])) =
     (Some ErrPanic, PointerTo (GTSlice ''string'') (VTSlice ''string'' []), dbr)"
  using slice_read_panics_after_reload [of "json_of (VTSlice ''string'' [VString ''a''])" "''string''" "[VString ''a'']" sample_ml
      "''t''" "''k''" "one_row (VTSlice ''string'' [VString ''a''])" "one_row (VSlice [VString ''a''])"]
  by simp

text \<open>Into a variable of type \<^verbatim>\<open>any\<close>, \<^verbatim>\<open>Read\<close> returns every record that is neither a map nor a pointer; for a
  map, which every struct is after a reload, it reports an error instead.\<close>
theorem read_into_any:
  assumes "has_row table key v db"
  shows "\<exists>dbr. Read_into L M T elapsed table key (PointerTo GAny old) db =
     (case v of
        VNil \<Rightarrow> (Some ErrNilSource, PointerTo GAny old, dbr)
      | VMap m \<Rightarrow> (Some ErrBadDst, PointerTo GAny old, dbr)
      | VPtr t p \<Rightarrow> (case p of None \<Rightarrow> (Some ErrPanic, PointerTo GAny old, dbr)
          | Some w \<Rightarrow> (None, PointerTo GAny w, dbr))
      | _ \<Rightarrow> (None, PointerTo GAny v, dbr))"
  using Read_into_row [OF assms]
  by (cases v) (auto simp: to_def to_other_def MapToStruct_def ToStruct_def assignable_def split: option.splits)

theorem read_into_any_witness:
  "\<exists>dbr. Read_into sample_lib sample_ml user_type 0 ''t'' ''k'' (PointerTo GAny VNil) (one_row (VMap [])) =
     (Some ErrBadDst, PointerTo GAny VNil, dbr)"
  using read_into_any [of "''t''" "''k''" "VMap []" "one_row (VMap [])"] by simp

lemma to_other_type_safe:
  assumes "plain src" "src \<noteq> VNil" "conforms T ty old"
  shows "\<exists>r v. to_other M T src ty old = (r, PointerTo ty v) \<and> conforms T ty v \<and> (r \<noteq> None \<longrightarrow> v = old)"
proof (cases src)
  case (VMap m)
  then have m: "list_all (\<lambda>p. plain (snd p)) m"
    using assms(1) by simp
  show ?thesis
  proof (cases ty)
    case (GStruct t fs)
    with assms(3) obtain vs where "old = VStruct t vs" "conforms_fields T fs vs"
      by (auto split: goval.splits)
    then show ?thesis
      using mapper_conforms(1) [OF m] GStruct VMap by (simp add: to_other_def MapToStruct_struct)
  qed (use VMap assms(3) in \<open>simp_all add: to_other_def MapToStruct_def\<close>)
qed (use assms conforms_assigned [OF assms(1)] in \<open>auto simp: to_other_def ToStruct_def\<close>)

text \<open>C17: reading is type safe: when the record is made of what the type switch of \<^verbatim>\<open>deepCopyValue\<close> copies
  (everything a reload yields) and the caller's variable conforms to its type, it conforms to it
  afterwards, down to the last nested field; a read that reports an error or panics left it as it
  was.\<close>
theorem read_type_safe:
  assumes "plain v" "conforms T ty old" "has_row table key v db"
  shows "\<exists>r v' dbr. Read_into L M T elapsed table key (PointerTo ty old) db = (r, PointerTo ty v', dbr) \<and>
     conforms T ty v' \<and> (r \<noteq> None \<longrightarrow> v' = old) \<and> rows dbr = rows db"
proof -
  have "\<exists>r v'. to L M T v (PointerTo ty old) = (r, PointerTo ty v') \<and> conforms T ty v' \<and> (r \<noteq> None \<longrightarrow> v' = old)"
  proof (cases "v = VNil \<or> has_type ty v")
    case True
    then show ?thesis
      using assms conforms_assigned [of v ty T] by (auto simp: to_def Let_def deepCopy_plain assignable_def)
  next
    case False
    then show ?thesis
      using to_other_type_safe [OF assms(1) _ assms(2)] by (auto simp: to_def)
  qed
  then show ?thesis
    using Read_into_row [OF assms(3)] by (auto simp: rows_def fun_eq_iff)
qed

theorem read_type_safe_witness:
  "\<exists>r v' dbr. Read_into sample_lib sample_ml user_type 0 ''t'' ''k'' (PointerTo (user_type ''User'') user)
     (one_row (VMap [(''name'', VFloat64 1), (''Age'', VString ''x'')])) = (r, PointerTo (user_type ''User'') v', dbr) \<and>
     conforms user_type (user_type ''User'') v'"
proof -
  have "conforms user_type (user_type ''User'') user"
    by (simp add: user_type_def user_fields_def user_def)
  moreover have "plain (VMap [(''name'', VFloat64 1), (''Age'', VString ''x'')])"
    by simp
  ultimately show ?thesis
    using read_type_safe [OF _ _ has_one_row] by blast
qed

lemma batch_elems_Inr:
  "batch_elems L M T ety ds = Inr vs \<Longrightarrow> list_all2 (\<lambda>d v. batch_elem L M T ety d = Inr v) ds vs"
  by (induction ds arbitrary: vs) (auto split: sum.splits)

lemma batch_elems_Inl: "batch_elems L M T ety ds = Inl err \<Longrightarrow> \<exists>d \<in> set ds. batch_elem L M T ety d = Inl err"
  by (induction ds) (auto split: sum.splits)

text \<open>C32: \<^verbatim>\<open>ReadBatch\<close> is all or nothing: on success the slice has exactly one converted element for every record
  of the table; when one record cannot be converted, the destination and the counters stay as they
  were.\<close>
theorem ReadBatch_all_or_nothing:
  assumes "\<not> db_closed db" "gm_get (db_data db) table = Some t" "elem_type T ty = Some ety"
    and "ReadBatch_into L M T table (PointerTo ty old) db = (r, dst, db')"
  shows "(r = None \<longrightarrow> (\<exists>vs. dst = PointerTo ty (mk_slice ty vs) \<and>
        list_all2 (\<lambda>row v. batch_elem L M T ety (snd row) = Inr v) t vs)) \<and>
     (r \<noteq> None \<longrightarrow> dst = PointerTo ty old \<and> db' = db \<and>
        (\<exists>row \<in> set t. \<exists>err. batch_elem L M T ety (snd row) = Inl err))"
proof (cases "batch_elems L M T ety (map snd t)")
  case (Inl err)
  from batch_elems_Inl [OF this] Inl assms show ?thesis
    by (auto simp: ReadBatch_into_def)
next
  case (Inr vs)
  from batch_elems_Inr [OF this] Inr assms show ?thesis
    by (auto simp: ReadBatch_into_def list_all2_map1)
qed

theorem ReadBatch_all_or_nothing_witness:
  "\<exists>db'. ReadBatch_into sample_lib sample_ml user_type ''t'' (PointerTo (GTSlice ''User'') (VTSlice ''User'' [])) (one_row VNil) =
     (Some ErrNilSource, PointerTo (GTSlice ''User'') (VTSlice ''User'' []), db') \<and> db' = one_row VNil"
proof -
  obtain r dst db' where b: "ReadBatch_into sample_lib sample_ml user_type ''t'' (PointerTo (GTSlice ''User'') (VTSlice ''User'' []))
      (one_row VNil) = (r, dst, db')"
    by (metis prod_cases3)
  have facts: "\<not> db_closed (one_row VNil)" "gm_get (db_data (one_row VNil)) ''t'' = Some [(''k'', VNil)]"
    "elem_type user_type (GTSlice ''User'') = Some (user_type ''User'')"
    by (simp_all add: one_row_def sample_db_def)
  have "r = Some ErrNilSource"
    using b facts by (simp add: ReadBatch_into_def batch_elem_def new_elem_def to_def user_type_def)
  with b ReadBatch_all_or_nothing [OF facts b] show ?thesis
    by simp
qed

end
