(* ===== verification/Spec2Isabelle.thy ===== *)
theory Spec2Isabelle
  imports Prelude Interfaces Keys GoValue Encoding Crypto Crc WalCodec Wal WalInv Index Tx Storage Metrics
    Logger Backup Config Database Worker WorkerInv Recovery DbIndex Persist System SystemProps Restart Lifecycle
    Faults PersistProps Mapper MapperProps DbRead
begin

text \<open>
  A verification development for polarysdb, an embedded key-value database in Go.

  \<^bold>\<open>The program.\<close> Tables of records live in memory (\<^verbatim>\<open>database.go\<close>). Clients hand their writes to one
  worker through a channel; the worker applies them in batches, updates the secondary indexes
  (\<^verbatim>\<open>modules/index\<close>), appends every operation to a write-ahead log (\<^verbatim>\<open>modules/wal\<close>) and answers.
  Transactions (\<^verbatim>\<open>modules/tx\<close>) collect changes against a snapshot and apply them in one step when the
  version has not moved. The data are saved as one file, JSON under AES-256-GCM (\<^verbatim>\<open>modules/storage\<close>,
  \<^verbatim>\<open>modules/crypto\<close>); a start loads that file and replays the log over it. Around this core are the
  mapper that fills the caller's structs (\<^verbatim>\<open>modules/mapper\<close>), backups, metrics, the logger and the
  configuration.

  \<^bold>\<open>The theories\<close>, in the order of their imports:

  \<^item> \<open>Prelude\<close>: errors, bytes and strings, decimal numbers, Go maps as association lists, and the lemmas
    and hints that all components share. \<open>Interfaces\<close>: the locales \<open>append_log\<close> (what the worker relies
    on in a log), \<open>table_index\<close> (what the database relies on in an index) and \<open>snapshot_store\<close>.
  \<^item> \<open>Keys\<close> (\<^verbatim>\<open>keys.go\<close>, \<^verbatim>\<open>common/\<close>), \<open>GoValue\<close> (values of type \<^verbatim>\<open>any\<close>, \<^verbatim>\<open>fmt\<close>, \<^verbatim>\<open>deepCopyValue\<close>),
    \<open>Encoding\<close> (\<^verbatim>\<open>encoding/serialize.go\<close>), \<open>Crypto\<close> (\<^verbatim>\<open>crypto/crypto.go\<close> over an executable AES-256-GCM),
    \<open>Crc\<close> (the CRC-32 of the log and what it detects).
  \<^item> \<open>WalCodec\<close>: the bytes of the log, writing and reading records. \<open>Wal\<close>: the log's state and the steps of
    its goroutines; \<open>WalInv\<close>: its invariant under every interleaving, its durability and its faults.
  \<^item> \<open>Index\<close>, \<open>Tx\<close>, \<open>Storage\<close>, \<open>Metrics\<close>, \<open>Logger\<close>, \<open>Backup\<close>, \<open>Config\<close>: one theory per package, operation by
    operation, with its own invariants.
  \<^item> \<open>Database\<close>: the state \<open>db\<close> (the \<^verbatim>\<open>Database\<close> struct) and the calls of clients. \<open>Worker\<close>: the worker's loop,
    and the specification \<open>spec_op\<close> of an operation on tables as maps; \<open>WorkerInv\<close>: the worker implements
    it. \<open>Recovery\<close>: replaying a log. \<open>DbIndex\<close>: the indexes of the database. \<open>Persist\<close>: saving, loading, import
    and export, key change, flush, start and stop.
  \<^item> \<open>System\<close>: all of these as steps \<open>db_run\<close> of one transition system with a history of events;
    \<open>SystemProps\<close>: linearizability, indexes, isolation; \<open>Restart\<close>, \<open>Lifecycle\<close>: the database on its real log
    from one start to the next; \<open>Faults\<close>, \<open>PersistProps\<close>: failing appends, shutdown, flush, reload, keys.
  \<^item> \<open>Mapper\<close>, \<open>MapperProps\<close>, \<open>DbRead\<close>: reflection on destination types, the mapper, and \<^verbatim>\<open>Read\<close> and \<^verbatim>\<open>ReadBatch\<close>
    into the caller's variables.

  \<^bold>\<open>How the code is rendered.\<close> A struct is a record, an enumeration or a tagged union a datatype,
  an integer a word of its width, a Go map an association list without duplicate keys (its order is
  the order in which a loop visits it), an error the left side of a sum or an option. A function that
  changes a struct returns it updated. A goroutine is split at the points where it blocks: each case
  of a \<^verbatim>\<open>select\<close>, each tick of a timer, and each part of a function between two acquisitions of a lock
  is one definition, and the transition systems \<open>wal_run\<close> and \<open>db_run\<close> interleave them freely. Where a
  goroutine stands between two blocking points is a field: \<open>db_waiting\<close> holds the operations whose
  clients have counted them in \<^verbatim>\<open>pendingOps\<close> and wait for a place in the channel, \<open>db_workerIdle\<close> says that
  the worker has found the channel empty and is at its second \<^verbatim>\<open>select\<close>, and \<open>w_writer\<close> is the place of
  \<^verbatim>\<open>batchWriter\<close>. A definition whose code takes a lock twice has one state per critical section as an
  argument (\<open>QueryByIndex\<close>), and the records the unlocked loop of \<open>db_CreateIndex\<close> sees are an argument too;
  \<open>db_index_raced\<close> records that they were not those of the table. What the environment decides is an
  argument: the time, the random nonce, the case a \<^verbatim>\<open>select\<close> takes, and where an operation on a file fails
  (\<open>fault\<close>). A Go panic is the error \<open>ErrPanic\<close> or the flag \<open>db_panicked\<close>; the transition system goes on
  after it, so that properties of a run say that it has not happened. Fields that no operation of the
  code reads are history: \<open>db_accepted\<close>, \<open>db_replies\<close>, \<open>db_wal_failed\<close>, \<open>w_accepted\<close>, \<open>w_rotated\<close>.

  \<^bold>\<open>Parameters and their laws.\<close> Code outside the repository is an argument: \<open>golib\<close> (JSON, user
  \<^verbatim>\<open>String\<close> methods, formatting of floats), \<open>pblib\<close> (protobuf), \<open>maplib\<close> (\<^verbatim>\<open>gonum\<close>, conversions between
  integers and floats). Their laws are hypotheses of the theorems that need them: \<open>json_ok\<close> (JSON
  round-trips up to a normal form), \<open>proto_faithful\<close> (protobuf round-trips), \<open>nonce_ok\<close> (a nonce has twelve
  bytes); closed examples instantiate each of them. SHA-256 is a parameter of key generation.

  \<^bold>\<open>What is shown.\<close>
  \<^item> The worker refines the specification of operations on maps: every answer and every state of a run
    is that of a sequential execution in the order of acceptance (\<open>database_linearizable\<close>). Transactions
    are isolated (\<open>commit_isolated\<close>), indexes agree with the data after any history (\<open>Query_correct\<close>) and in
    every reachable state whose indexes were not built during a write (\<open>indexes_stay_consistent\<close>). Whatever
    its \<^verbatim>\<open>select\<close>s choose, the worker answers all that was accepted within a bounded number of steps while
    the channel is open (\<open>accepted_operations_answered\<close>), and it drains a closed channel from its first
    \<^verbatim>\<open>select\<close> (\<open>worker_drains_closed_channel\<close>).
  \<^item> As long as its file handle is open and all entries can be encoded, the log keeps them in order
    (\<open>wal_accepts_in_order\<close>), and \<^verbatim>\<open>Close\<close> puts all but those left in its channel on the disk
    (\<open>wal_Close_durable\<close>); it reads back what was written, up to a torn end or damaged records
    (\<open>ReadAll_roundtrip\<close>, \<open>ReadAll_crash_prefix\<close>, \<open>ReadAll_skips_damaged_record\<close>). Replaying it over any
    snapshot of the run gives the last state (\<open>recovery_over_any_snapshot\<close>), and so does a real restart on a
    log of scalar values that was never rotated and was closed with an empty channel
    (\<open>reopen_restores_everything\<close>).
  \<^item> The state file is replaced atomically (\<open>Save_atomic\<close>) and round-trips (\<open>Save_Load_roundtrip\<close>); a flush that
    succeeds is durable and verified (\<open>Flush_is_verified\<close>).
  \<^item> Reads are type safe (\<open>read_type_safe\<close>), and structs of the supported fields survive a reload
    (\<open>struct_reads_back\<close>).
  \<^item> The limits of these guarantees are theorems too: acknowledged writes that a failing log undoes,
    commits that a restart undoes, stale indexes after a commit, keys indexed twice by a build that races
    with a write (\<open>index_build_race\<close>), writes lost by an overlapping flush, records hidden by a rotation or
    overwritten by the next one, entries a shutdown leaves in the channel of the log
    (\<open>wal_Close_loses_queued\<close>), operations stranded by a shutdown, fields that a reload corrupts.

  \<^bold>\<open>Bounds and fuel.\<close> No definition uses fuel. \<open>ReadAll\<close> terminates because every round consumes a byte,
  the mapper because the source value gets smaller, the worker's drain takes one step more than the
  channel holds, and with an open channel the worker needs at most two steps for each operation there
  and two more (\<open>work\<close>). Counters wrap at their width; statements about them are modulo it or carry the
  bound they need.

  \<^bold>\<open>Not modelled.\<close> The generated protobuf code (\<^verbatim>\<open>wal.pb.go\<close>), which is a parameter. Locks themselves:
  a critical section is one step, except where the code releases the lock in between. A batch of the
  worker is one step, too: what an index build that overlaps it may leave is unconstrained (\<open>qs_race\<close>).
  \<^verbatim>\<open>Truncate\<close> of the log, which nothing calls, is defined but not a step of the runs. The time-out after
  which \<^verbatim>\<open>Close\<close> of the log goes on without its workers: its last part may run at any time. Aliasing: a map
  or slice that a client hands in or gets back is shared with the table in Go and copied here. The
  text of log lines. Persistent read errors of the log file, on which the loop of \<^verbatim>\<open>ReadAll\<close> would not
  end. Fields of defined non-struct types and interfaces other than \<^verbatim>\<open>any\<close> in the mapper.
\<close>

end
